theory Spec2Isabelle
  imports Main "HOL-Library.AList"
begin

section \<open>The component loader and the knob widget\<close>

text \<open>
  A shallow embedding of \<^verbatim>\<open>src/demo/js/component-loader.js\<close> and of the
  configuration part of \<^verbatim>\<open>src/component-knob.js\<close>.

  The loader keeps four private tables and one public flag. They are the fields of the
  record \<open>world\<close>, next to the part of the page the loader reads and writes: the
  attributes and the computed style of every element, the objects the factories return,
  the names of the properties every object inherits, and the sequence of numbers
  \<^verbatim>\<open>Math.random\<close> will produce. Factories and the
  \<^verbatim>\<open>init\<close> and \<^verbatim>\<open>render\<close> methods of the components are code the
  loader calls but does not own: they are named by numbers in the tables and given their
  meaning by an environment \<open>env\<close> of functions on the world, which may return, throw
  or never return.
\<close>

subsection \<open>Strings\<close>

text \<open>\<^verbatim>\<open>String.prototype.indexOf\<close>: the first position of \<open>sub\<close> in
  \<open>s\<close>, or \<open>-1\<close>.\<close>

fun indexOf_from :: "string \<Rightarrow> string \<Rightarrow> nat \<Rightarrow> int" where
  "indexOf_from [] sub i = (if sub = [] then int i else - 1)"
| "indexOf_from (c # s) sub i =
     (if take (length sub) (c # s) = sub then int i else indexOf_from s sub (Suc i))"

definition indexOf :: "string \<Rightarrow> string \<Rightarrow> int" where
  "indexOf s sub = indexOf_from s sub 0"

text \<open>\<^verbatim>\<open>s.slice(n)\<close> for \<open>0 \<le> n\<close>.\<close>

definition slice :: "string \<Rightarrow> nat \<Rightarrow> string" where
  "slice s n = drop n s"

text \<open>\<^verbatim>\<open>s.split(" ")\<close>: the pieces between single spaces; two spaces in a row
  give an empty piece, and the empty string gives one empty piece.\<close>

fun split_space :: "string \<Rightarrow> string list" where
  "split_space [] = [[]]"
| "split_space (c # s) =
     (if c = CHR '' '' then [] # split_space s
      else (case split_space s of
              [] \<Rightarrow> [[c]]
            | piece # pieces \<Rightarrow> (c # piece) # pieces))"

text \<open>The decimal digits of a natural number, as \<^verbatim>\<open>"" + n\<close> writes them.\<close>

definition digit :: "nat \<Rightarrow> char" where
  "digit d = ''0123456789'' ! d"

fun decimal :: "nat \<Rightarrow> string" where
  "decimal n = (if n < 10 then [digit n] else decimal (n div 10) @ [digit (n mod 10)])"

declare decimal.simps [simp del]

subsection \<open>The page\<close>

type_synonym elem = nat
type_synonym ref = nat
type_synonym fref = nat

text \<open>An element: its attributes, and what \<^verbatim>\<open>getComputedStyle\<close> and
  \<^verbatim>\<open>offsetParent\<close> give for it.\<close>

record element =
  attrs :: "string \<rightharpoonup> string"
  display :: string
  visibility :: string
  offsetParent :: "elem option"

datatype dom_tree = Node elem "dom_tree list"

fun root :: "dom_tree \<Rightarrow> elem" where
  "root (Node e children) = e"

text \<open>The descendants of a node in document order, the node itself left out, as
  \<^verbatim>\<open>querySelectorAll\<close> walks them.\<close>

fun descendants :: "dom_tree \<Rightarrow> elem list" where
  "descendants (Node e children) = concat (map (\<lambda>c. root c # descendants c) children)"

text \<open>The object a factory returns. Only the four properties the loader reads or writes
  are kept; \<open>api_init\<close> and \<open>api_render\<close> hold a function exactly when
  \<^verbatim>\<open>typeof\<close> of the property is \<^verbatim>\<open>"function"\<close>.\<close>

record component_api =
  api_id :: "string option"
  api_context :: "elem option"
  api_init :: "fref option"
  api_render :: "fref option"

definition empty_object :: component_api where
  "empty_object = \<lparr>api_id = None, api_context = None, api_init = None, api_render = None\<rparr>"

text \<open>A value of the language, as far as \<^verbatim>\<open>typeof\<close> and truthiness tell
  values apart.\<close>

datatype js_value =
    Undefined | Null | Boolean bool | Number int | String string
  | Object ref | Function ref

fun typeof :: "js_value \<Rightarrow> string" where
  "typeof Undefined = ''undefined''"
| "typeof Null = ''object''"
| "typeof (Boolean b) = ''boolean''"
| "typeof (Number n) = ''number''"
| "typeof (String s) = ''string''"
| "typeof (Object r) = ''object''"
| "typeof (Function r) = ''function''"

fun truthy :: "js_value \<Rightarrow> bool" where
  "truthy Undefined = False"
| "truthy Null = False"
| "truthy (Boolean b) = b"
| "truthy (Number n) = (n \<noteq> 0)"
| "truthy (String s) = (s \<noteq> [])"
| "truthy (Object r) = True"
| "truthy (Function r) = True"

subsection \<open>The loader's state\<close>

text \<open>An entry of \<^verbatim>\<open>_availableComponents\<close>: \<^verbatim>\<open>{name: sName, func: oFunction}\<close>.
  What is registered is taken to be a function or \<^verbatim>\<open>undefined\<close>; \<open>func\<close>
  is \<open>None\<close> when it is \<^verbatim>\<open>undefined\<close>.\<close>

record descriptor =
  name :: string
  func :: "fref option"

text \<open>
  \<open>componentsHash\<close>, \<open>availableComponents\<close>, \<open>registeredComponents\<close> and
  \<open>registeredForNotifications\<close> are the loader's four tables, \<open>notifying\<close> is
  \<^verbatim>\<open>api.notifying\<close>. \<open>_componentsHash\<close> and \<open>_registeredComponents\<close>
  are plain objects: the maps hold their own properties, and \<open>object_names\<close> are the
  names of the properties every object inherits (\<^verbatim>\<open>constructor\<close>,
  \<^verbatim>\<open>toString\<close>, ...), which a lookup finds when there is no own property of
  that name. \<open>constructLog\<close> and \<open>renderLog\<close> are not in the source: they
  record, in order, every call \<^verbatim>\<open>new oFunction(element)\<close> and every call
  \<^verbatim>\<open>componentAPI.render()\<close> the loader makes, so that "is invoked" can be
  stated.
\<close>

record world =
  body :: dom_tree
  elements :: "elem \<Rightarrow> element"
  heap :: "ref \<Rightarrow> component_api"
  next_ref :: ref
  object_names :: "string list"
  random :: "nat \<Rightarrow> nat"
  random_pos :: nat
  componentsHash :: "string \<rightharpoonup> elem list"
  availableComponents :: "descriptor list"
  registeredComponents :: "string \<rightharpoonup> ref"
  registeredForNotifications :: "ref list"
  notifying :: bool
  constructLog :: "(fref \<times> elem) list"
  renderLog :: "ref list"

datatype error = TypeError | SyntaxError | Thrown string

text \<open>What running a piece of code from a world gives: a value and the world it leaves, a
  thrown error and the world as it is when the error leaves the loader, or no return.\<close>

datatype 'a outcome = Returns 'a world | Throws error world | Diverges

definition bind :: "'a outcome \<Rightarrow> ('a \<Rightarrow> world \<Rightarrow> 'b outcome) \<Rightarrow> 'b outcome" where
  "bind m k = (case m of Returns x w \<Rightarrow> k x w | Throws e w \<Rightarrow> Throws e w | Diverges \<Rightarrow> Diverges)"

text \<open>The code of the components. \<open>construct env f element this w\<close> runs the body of the
  function \<open>f\<close> on \<open>element\<close> with \<^verbatim>\<open>this\<close> bound to a fresh object and gives
  the value the body returns; \<open>invoke env g this w\<close> runs the method \<open>g\<close> on the
  object \<open>this\<close>. Both are functions of the whole world: the code of a component may
  change the page and may call the loader, and the properties below say which of its
  effects they rely on.\<close>

record env =
  construct :: "fref \<Rightarrow> elem \<Rightarrow> ref \<Rightarrow> world \<Rightarrow> js_value outcome"
  invoke :: "fref \<Rightarrow> ref \<Rightarrow> world \<Rightarrow> unit outcome"

subsection \<open>Elements\<close>

definition getAttribute :: "world \<Rightarrow> elem \<Rightarrow> string \<Rightarrow> string option" where
  "getAttribute w element a = attrs (elements w element) a"

definition setAttribute :: "elem \<Rightarrow> string \<Rightarrow> string \<Rightarrow> world \<Rightarrow> world" where
  "setAttribute element a v w =
     w\<lparr>elements := (elements w)
        (element := (elements w element)\<lparr>attrs := (attrs (elements w element))(a \<mapsto> v)\<rparr>)\<rparr>"

text \<open>The truth value of \<^verbatim>\<open>element.getAttribute("data-componentized")\<close>: the
  attribute is there and not the empty string.\<close>

definition componentized :: "world \<Rightarrow> elem \<Rightarrow> bool" where
  "componentized w element =
     (case getAttribute w element ''data-componentized'' of
        None \<Rightarrow> False
      | Some v \<Rightarrow> v \<noteq> [])"

definition isVisible :: "world \<Rightarrow> elem \<Rightarrow> bool" where
  "isVisible w element =
     (let oStyle = elements w element
      in display oStyle \<noteq> ''none'' \<and> visibility oStyle \<noteq> ''hidden'' \<and>
         offsetParent (elements w element) \<noteq> None)"

text \<open>\<^verbatim>\<open>context.querySelectorAll("[class*='" + sub + "']")\<close>.\<close>

definition querySelectorAll :: "world \<Rightarrow> dom_tree \<Rightarrow> string \<Rightarrow> elem list" where
  "querySelectorAll w context sub =
     filter (\<lambda>e. case getAttribute w e ''class'' of
                    None \<Rightarrow> False
                  | Some c \<Rightarrow> indexOf c sub > - 1)
            (descendants context)"

text \<open>\<^verbatim>\<open>[].forEach.call(xs, f)\<close>, for a list nothing removes from while the loop
  runs: the loader's arrays are private and only grow by \<^verbatim>\<open>push\<close> during a pass,
  and \<^verbatim>\<open>forEach\<close> visits the elements that were there when it started.\<close>

fun forEach :: "('a \<Rightarrow> world \<Rightarrow> unit outcome) \<Rightarrow> 'a list \<Rightarrow> world \<Rightarrow> unit outcome" where
  "forEach f [] w = Returns () w"
| "forEach f (x # xs) w = bind (f x w) (\<lambda>u w'. forEach f xs w')"

subsection \<open>scan\<close>

definition COMPONENT_PREFIX :: string where
  "COMPONENT_PREFIX = ''js-component-''"

text \<open>The body of the inner loop of \<^verbatim>\<open>scan\<close>, for one class token. The
  name comes from the page and may be one that every object inherits: then
  \<^verbatim>\<open>_componentsHash[sName]\<close> is the inherited property (a function, or
  \<^verbatim>\<open>Object.prototype\<close> for \<^verbatim>\<open>__proto__\<close>), which is truthy and
  has no \<^verbatim>\<open>push\<close>, so \<^verbatim>\<open>elementInstanceArray.push(element)\<close>
  throws.\<close>

definition scan_class :: "elem \<Rightarrow> string \<Rightarrow> world \<Rightarrow> unit outcome" where
  "scan_class element sClass w =
     (let iIndex = indexOf sClass COMPONENT_PREFIX
      in if iIndex > - 1
         then (let sName = slice sClass (length COMPONENT_PREFIX)
               in case componentsHash w sName of
                    Some elementInstanceArray \<Rightarrow>
                      Returns () (w\<lparr>componentsHash :=
                        (componentsHash w)(sName \<mapsto> elementInstanceArray @ [element])\<rparr>)
                  | None \<Rightarrow>
                      if sName \<in> set (object_names w) then Throws TypeError w
                      else Returns () (w\<lparr>componentsHash :=
                             (componentsHash w)(sName \<mapsto> [element])\<rparr>))
         else Returns () w)"

text \<open>The body of the outer loop. \<^verbatim>\<open>getAttribute("class")\<close> is \<^verbatim>\<open>null\<close> on
  an element without the attribute, and \<^verbatim>\<open>null.split\<close> throws.\<close>

definition scan_element :: "elem \<Rightarrow> world \<Rightarrow> unit outcome" where
  "scan_element element w =
     (if \<not> componentized w element
      then (case getAttribute w element ''class'' of
              None \<Rightarrow> Throws TypeError w
            | Some c \<Rightarrow> forEach (scan_class element) (split_space c) w)
      else Returns () w)"

definition scan :: "dom_tree option \<Rightarrow> world \<Rightarrow> unit outcome" where
  "scan context w =
     (let context = (case context of Some c \<Rightarrow> c | None \<Rightarrow> body w);
          aComponents = querySelectorAll w context COMPONENT_PREFIX
      in forEach scan_element aComponents w)"

subsection \<open>initializeComponents\<close>

text \<open>\<^verbatim>\<open>new oFunction(element)\<close>: a fresh object is made and bound to
  \<^verbatim>\<open>this\<close>, the body runs, and the value of the expression is what the body
  returned when that is an object or a function, and the fresh object otherwise.\<close>

definition js_new :: "env \<Rightarrow> fref \<Rightarrow> elem \<Rightarrow> world \<Rightarrow> js_value outcome" where
  "js_new env f element w =
     (let this = next_ref w;
          w1 = w\<lparr>heap := (heap w)(this := empty_object), next_ref := Suc this,
                 constructLog := constructLog w @ [(f, element)]\<rparr>
      in bind (construct env f element this w1)
           (\<lambda>v w2. Returns (case v of Object r \<Rightarrow> Object r
                              | Function r \<Rightarrow> Function r
                              | _ \<Rightarrow> Object this) w2))"

text \<open>The \<^verbatim>\<open>do ... while\<close> loop that draws an id. \<open>random w k\<close> is what the
  \<open>k\<close>-th call of \<^verbatim>\<open>Math.floor(Math.random() * 10000000)\<close> gives. The loop need
  not end, so the id is optional: \<open>None\<close> is no return. An id is \<^verbatim>\<open>i14\<close>
  followed by digits, which is not the name of a property that objects inherit, so
  \<^verbatim>\<open>_registeredComponents[componentId]\<close> is the own property, if any.\<close>

partial_function (option) generateId :: "world \<Rightarrow> (string \<times> world) option" where
  "generateId w =
     (let componentId = ''i14'' @ decimal (random w (random_pos w));
          w' = w\<lparr>random_pos := Suc (random_pos w)\<rparr>
      in if registeredComponents w' componentId \<noteq> None
         then generateId w'
         else Some (componentId, w'))"

text \<open>\<^verbatim>\<open>componentAPI.id = componentId; componentAPI.context = element;\<close>. The file
  is in strict mode, where writing a property of a value that is not an object throws.\<close>

definition assign_id_context :: "js_value \<Rightarrow> string \<Rightarrow> elem \<Rightarrow> world \<Rightarrow> ref outcome" where
  "assign_id_context componentAPI componentId element w =
     (let set = (\<lambda>r. Returns r (w\<lparr>heap := (heap w)
                   (r := (heap w r)\<lparr>api_id := Some componentId, api_context := Some element\<rparr>)\<rparr>))
      in case componentAPI of
           Object r \<Rightarrow> set r
         | Function r \<Rightarrow> set r
         | _ \<Rightarrow> Throws TypeError w)"

definition call_init :: "env \<Rightarrow> ref \<Rightarrow> world \<Rightarrow> unit outcome" where
  "call_init env componentAPI w =
     (case api_init (heap w componentAPI) of
        Some init \<Rightarrow> invoke env init componentAPI w
      | None \<Rightarrow> Returns () w)"

definition call_render :: "env \<Rightarrow> fref \<Rightarrow> ref \<Rightarrow> world \<Rightarrow> unit outcome" where
  "call_render env render componentAPI w =
     invoke env render componentAPI (w\<lparr>renderLog := renderLog w @ [componentAPI]\<rparr>)"

text \<open>Lines 260 to 268: render the component if it is visible, otherwise save it for
  later.\<close>

definition render_or_defer :: "env \<Rightarrow> ref \<Rightarrow> elem \<Rightarrow> world \<Rightarrow> unit outcome" where
  "render_or_defer env componentAPI element w =
     (case api_render (heap w componentAPI) of
        Some render \<Rightarrow>
          if isVisible w element
          then call_render env render componentAPI w
          else Returns () (w\<lparr>registeredForNotifications :=
                              registeredForNotifications w @ [componentAPI]\<rparr>)
      | None \<Rightarrow> Returns () w)"

definition no_api_message :: "string \<Rightarrow> string" where
  "no_api_message sName = ''Component '' @ sName @ '' does not return an api''"

text \<open>Lines 224 to 258: flag the element, create the component, give it an id, check
  what the factory gave, record it and initialize it.\<close>

definition create_component :: "env \<Rightarrow> string \<Rightarrow> fref \<Rightarrow> elem \<Rightarrow> world \<Rightarrow> ref outcome" where
  "create_component env sName f element w =
     bind (js_new env f element (setAttribute element ''data-componentized'' ''true'' w))
       (\<lambda>componentAPI w2.
          case generateId w2 of
            None \<Rightarrow> Diverges
          | Some (componentId, w3) \<Rightarrow>
              bind (assign_id_context componentAPI componentId element w3)
                (\<lambda>r w4.
                   if \<not> truthy componentAPI \<or> typeof componentAPI \<noteq> ''object''
                   then Throws (Thrown (no_api_message sName)) w4
                   else
                     bind (call_init env r
                             (w4\<lparr>registeredComponents :=
                                   (registeredComponents w4)(componentId \<mapsto> r)\<rparr>))
                       (\<lambda>u w6. Returns r w6)))"

text \<open>The body of the loop over the elements of one component (lines 219 to 270).\<close>

definition instantiate :: "env \<Rightarrow> string \<Rightarrow> fref option \<Rightarrow> elem \<Rightarrow> world \<Rightarrow> unit outcome" where
  "instantiate env sName oFunction element w =
     (case oFunction of
        None \<Rightarrow> Returns () w
      | Some f \<Rightarrow>
          if componentized w element then Returns () w
          else bind (create_component env sName f element w)
                 (\<lambda>componentAPI w6. render_or_defer env componentAPI element w6))"

text \<open>The loop over the available components. The bound \<^verbatim>\<open>nAvailableComponents\<close>
  is read once, before the loop; the bucket of a component is read when its turn comes.
  The names looked up here are those of the descriptors, which \<^verbatim>\<open>register\<close>
  has accepted: it refuses every name that the array \<^verbatim>\<open>_availableComponents\<close>
  inherits (\<open>register_throws_iff\<close>), and an array inherits what every object
  inherits. So \<^verbatim>\<open>_componentsHash[sName]\<close> is the own property here, if any.\<close>

definition initialize_component :: "env \<Rightarrow> descriptor \<Rightarrow> world \<Rightarrow> unit outcome" where
  "initialize_component env component w =
     (let sName = name component; oFunction = func component
      in case componentsHash w sName of
           Some elementInstanceArray \<Rightarrow>
             forEach (instantiate env sName oFunction) elementInstanceArray w
         | None \<Rightarrow> Returns () w)"

definition initializeComponents :: "env \<Rightarrow> world \<Rightarrow> unit outcome" where
  "initializeComponents env w = forEach (initialize_component env) (availableComponents w) w"

definition checkForNewComponents :: "env \<Rightarrow> dom_tree option \<Rightarrow> world \<Rightarrow> unit outcome" where
  "checkForNewComponents env context w =
     (let context = (case context of Some c \<Rightarrow> c | None \<Rightarrow> body w)
      in bind (scan (Some context) w) (\<lambda>u w'. initializeComponents env w'))"

subsection \<open>register\<close>

text \<open>\<^verbatim>\<open>typeof(_availableComponents[sName]) !== "undefined"\<close>. The table is an
  array, and the property of an array that a string names is: the element at that index
  when the string is the decimal form of an index below the length; the length when it
  is \<^verbatim>\<open>"length"\<close>; a method when it is one of the names every array inherits,
  which are the parameter \<open>inherited\<close>; and \<^verbatim>\<open>undefined\<close> otherwise.\<close>

definition array_has_property :: "string list \<Rightarrow> 'a list \<Rightarrow> string \<Rightarrow> bool" where
  "array_has_property inherited xs key =
     (key \<in> set (map decimal [0..<length xs]) \<or> key = ''length'' \<or> key \<in> set inherited)"

definition duplicate_message :: "string \<Rightarrow> string" where
  "duplicate_message sName = ''There is already a registered component named '' @ sName"

definition register :: "string list \<Rightarrow> string \<Rightarrow> fref option \<Rightarrow> world \<Rightarrow> unit outcome" where
  "register inherited sName oFunction w =
     (if \<not> array_has_property inherited (availableComponents w) sName
      then Returns () (w\<lparr>availableComponents :=
                          availableComponents w @ [\<lparr>name = sName, func = oFunction\<rparr>]\<rparr>)
      else Throws (Thrown (duplicate_message sName)) w)"

subsection \<open>notifyAll\<close>

text \<open>\<^verbatim>\<open>array.splice(i, 1)\<close>; an index past the end removes nothing.\<close>

definition splice1 :: "nat \<Rightarrow> 'a list \<Rightarrow> 'a list" where
  "splice1 i xs = take i xs @ drop (Suc i) xs"

text \<open>\<^verbatim>\<open>while (toRemove.length) { queue.splice(toRemove.pop(), 1); }\<close>, the indices
  given in the order they are popped.\<close>

fun splice_popped :: "nat list \<Rightarrow> 'a list \<Rightarrow> 'a list" where
  "splice_popped [] queue = queue"
| "splice_popped (i # popped) queue = splice_popped popped (splice1 i queue)"

text \<open>The loop over the queue, with the index of the current entry and the indices
  collected so far. As in \<open>forEach\<close>, the entries visited are those of the queue as
  it is when the loop starts: a \<^verbatim>\<open>render\<close> can only add to the queue, at its
  end. \<^verbatim>\<open>getComputedStyle\<close> throws on a context that is not an element.\<close>

fun notify_each :: "env \<Rightarrow> ref list \<Rightarrow> nat \<Rightarrow> nat list \<Rightarrow> world \<Rightarrow> nat list outcome" where
  "notify_each env [] index toRemove w = Returns toRemove w"
| "notify_each env (componentAPI # rest) index toRemove w =
     (case api_render (heap w componentAPI) of
        None \<Rightarrow> notify_each env rest (Suc index) toRemove w
      | Some render \<Rightarrow>
          (case api_context (heap w componentAPI) of
             None \<Rightarrow> Throws TypeError w
           | Some context \<Rightarrow>
               if isVisible w context
               then bind (call_render env render componentAPI w)
                      (\<lambda>u w'. notify_each env rest (Suc index) (toRemove @ [index]) w')
               else notify_each env rest (Suc index) toRemove w))"

definition notifyAll :: "env \<Rightarrow> world \<Rightarrow> unit outcome" where
  "notifyAll env w =
     (if \<not> notifying w
      then bind (notify_each env (registeredForNotifications w) 0 [] (w\<lparr>notifying := True\<rparr>))
             (\<lambda>toRemove w'.
                Returns () (w'\<lparr>registeredForNotifications :=
                                splice_popped (rev toRemove) (registeredForNotifications w'),
                              notifying := False\<rparr>))
      else Returns () w)"

section \<open>The knob's configuration\<close>

text \<open>
  The part of \<^verbatim>\<open>components.Knob\<close> that reads the configuration:
  \<^verbatim>\<open>api.init\<close>, \<^verbatim>\<open>extend\<close> and \<^verbatim>\<open>setCanvasProps\<close>. Values are the
  values JSON can write. A number is a double: \<open>Finite m e\<close> is \<open>m \<times> 2\<^sup>e\<close>, and
  there are the negative zero and the two infinities (\<^verbatim>\<open>JSON.parse("1e999")\<close>).
  An object is the list of its own properties, each key once.
\<close>

datatype number = Finite int int | NegativeZero | PlusInfinity | MinusInfinity

datatype json =
    JNull | JBool bool | JNum number | JStr string
  | JArr "json list" | JObj "(string \<times> json) list"

fun is_zero :: "number \<Rightarrow> bool" where
  "is_zero (Finite m e) = (m = 0)"
| "is_zero NegativeZero = True"
| "is_zero PlusInfinity = False"
| "is_zero MinusInfinity = False"

fun json_truthy :: "json \<Rightarrow> bool" where
  "json_truthy JNull = False"
| "json_truthy (JBool b) = b"
| "json_truthy (JNum n) = (\<not> is_zero n)"
| "json_truthy (JStr s) = (s \<noteq> [])"
| "json_truthy (JArr xs) = True"
| "json_truthy (JObj kvs) = True"

text \<open>The keys a \<^verbatim>\<open>for ... in\<close> loop visits and \<^verbatim>\<open>hasOwnProperty\<close>
  accepts, with their values: the properties of an object, the indices of an array and
  of a string.\<close>

fun own_properties :: "json \<Rightarrow> (string \<times> json) list" where
  "own_properties (JObj kvs) = kvs"
| "own_properties (JArr xs) = zip (map decimal [0..<length xs]) xs"
| "own_properties (JStr s) = zip (map decimal [0..<length s]) (map (\<lambda>c. JStr [c]) s)"
| "own_properties v = []"

text \<open>The object \<^verbatim>\<open>settings\<close>. It starts as \<^verbatim>\<open>{}\<close>, whose prototype is
  \<^verbatim>\<open>Object.prototype\<close>, and \<^verbatim>\<open>extend\<close> can give it another prototype:
  \<^verbatim>\<open>null\<close>, or an object or array that \<^verbatim>\<open>JSON.parse\<close> made.\<close>

datatype prototype = ObjectPrototype | NoPrototype | ParsedValue json

record js_object =
  own :: "(string \<times> json) list"
  proto :: prototype

text \<open>The two variables of the component that \<^verbatim>\<open>init\<close> writes.\<close>

record knob =
  ctx :: "(string \<times> json) list option"
  settings :: js_object

text \<open>\<^verbatim>\<open>out[key] = v\<close>. The assignment makes or updates an own property of
  \<open>out\<close>, except when the key is \<^verbatim>\<open>__proto__\<close> and the lookup of that name
  reaches \<^verbatim>\<open>Object.prototype\<close>, where it is an accessor: \<open>out\<close> has no own
  property of that name and neither has its prototype, if that is a parsed value (there
  \<^verbatim>\<open>__proto__\<close> is an ordinary own property, as \<^verbatim>\<open>JSON.parse\<close> makes
  it). The setter replaces the prototype of \<open>out\<close> when the value is an object, an
  array or \<^verbatim>\<open>null\<close>, and does nothing otherwise.\<close>

definition reaches_setter :: "js_object \<Rightarrow> bool" where
  "reaches_setter out =
     (map_of (own out) ''__proto__'' = None \<and>
      (case proto out of
         ObjectPrototype \<Rightarrow> True
       | NoPrototype \<Rightarrow> False
       | ParsedValue p \<Rightarrow> map_of (own_properties p) ''__proto__'' = None))"

definition set_property :: "string \<Rightarrow> json \<Rightarrow> js_object \<Rightarrow> js_object" where
  "set_property key v out =
     (if key = ''__proto__'' \<and> reaches_setter out
      then (case v of
              JObj kvs \<Rightarrow> out\<lparr>proto := ParsedValue v\<rparr>
            | JArr xs \<Rightarrow> out\<lparr>proto := ParsedValue v\<rparr>
            | JNull \<Rightarrow> out\<lparr>proto := NoPrototype\<rparr>
            | _ \<Rightarrow> out)
      else out\<lparr>own := AList.update key v (own out)\<rparr>)"

text \<open>\<^verbatim>\<open>extend(out, a, b, ...)\<close>, \<open>args\<close> being the arguments after the
  first.\<close>

definition extend :: "js_object \<Rightarrow> json list \<Rightarrow> js_object" where
  "extend out args =
     fold (\<lambda>arg out.
             if \<not> json_truthy arg then out
             else fold (\<lambda>(key, v) out. set_property key v out) (own_properties arg) out)
          args out"

definition defaults :: "(string \<times> json) list" where
  "defaults =
     [(''radius'', JStr ''75''), (''lineWidth'', JStr ''10''), (''lineCap'', JStr ''round''),
      (''strokeStyle'', JStr ''#99CC33''), (''fillStyle'', JStr ''#666666''),
      (''font'', JStr ''52px sans-serif''), (''textAlign'', JStr ''center'')]"

text \<open>The properties \<^verbatim>\<open>for (var prop in settings)\<close> visits, each with the value
  \<^verbatim>\<open>settings[prop]\<close>: the own properties, then those of the prototype that no own
  property hides. \<^verbatim>\<open>Object.prototype\<close> has nothing the loop visits.\<close>

definition enumerable :: "js_object \<Rightarrow> (string \<times> json) list" where
  "enumerable s =
     own s @
     filter (\<lambda>(key, v). map_of (own s) key = None)
       (case proto s of ParsedValue p \<Rightarrow> own_properties p | _ \<Rightarrow> [])"

text \<open>\<^verbatim>\<open>setCanvasProps\<close>, on the own properties of the drawing context.\<close>

definition setCanvasProps :: "js_object \<Rightarrow> (string \<times> json) list \<Rightarrow> (string \<times> json) list" where
  "setCanvasProps settings_now c =
     fold (\<lambda>(prop, v) c. if map_of c prop \<noteq> None then AList.update prop v c else c)
          (enumerable settings_now) c"

text \<open>The value of \<^verbatim>\<open>context.getAttribute(DATA_SETTINGS) || {}\<close>: the text of
  the attribute, or a new empty object when the attribute is absent or empty.
  \<^verbatim>\<open>JSON.parse\<close> turns its argument into a string first, and the string of an
  empty object is \<^verbatim>\<open>[object Object]\<close>.\<close>

datatype settings_source = Markup string | EmptyObject

fun to_text :: "settings_source \<Rightarrow> string" where
  "to_text (Markup s) = s"
| "to_text EmptyObject = ''[object Object]''"

text \<open>\<^verbatim>\<open>api.init\<close>. \<^verbatim>\<open>JSON.parse\<close> belongs to the language and is a
  parameter: it gives a value, or the error it throws. \<open>getContext\<close> is what
  \<^verbatim>\<open>context.getContext('2d')\<close> gives and \<open>data_canvas_settings\<close> what
  \<^verbatim>\<open>context.getAttribute("data-canvas-settings")\<close> gives. An error leaves the
  component as it is when the error is thrown.\<close>

definition knob_init ::
  "(string \<Rightarrow> error + json) \<Rightarrow> (string \<times> json) list option \<Rightarrow> string option \<Rightarrow> knob
     \<Rightarrow> (error \<times> knob) + knob" where
  "knob_init JSON_parse getContext data_canvas_settings k =
     (case getContext of
        None \<Rightarrow> Inr (k\<lparr>ctx := None\<rparr>)
      | Some c \<Rightarrow>
          (let ctxSettings =
                 (case data_canvas_settings of
                    Some s \<Rightarrow> if s \<noteq> [] then Markup s else EmptyObject
                  | None \<Rightarrow> EmptyObject)
           in case JSON_parse (to_text ctxSettings) of
                Inl e \<Rightarrow> Inl (e, k\<lparr>ctx := Some c\<rparr>)
              | Inr parsed \<Rightarrow>
                  (let merged = extend (settings k) [JObj defaults, parsed]
                   in Inr \<lparr>ctx = Some (setCanvasProps merged c), settings = merged\<rparr>)))"

section \<open>Notions used by the properties\<close>

text \<open>\<open>post P out\<close>: the world an outcome leaves, whether by returning or by
  throwing, satisfies \<open>P\<close>.\<close>

definition post :: "(world \<Rightarrow> bool) \<Rightarrow> 'a outcome \<Rightarrow> bool" where
  "post P out = (case out of Returns x w' \<Rightarrow> P w' | Throws e w' \<Rightarrow> P w' | Diverges \<Rightarrow> True)"

text \<open>What the code of the components is asked to respect. \<open>discreet w w'\<close>: the
  loader's tables, its flag, the two logs and the instantiation flags of the elements
  are in \<open>w'\<close> as they were in \<open>w\<close>. \<open>steady w w'\<close>: moreover no element changed
  its visibility and no object its \<^verbatim>\<open>render\<close> method or its context.\<close>

definition discreet :: "world \<Rightarrow> world \<Rightarrow> bool" where
  "discreet w w' =
     (componentsHash w' = componentsHash w \<and>
      availableComponents w' = availableComponents w \<and>
      registeredComponents w' = registeredComponents w \<and>
      registeredForNotifications w' = registeredForNotifications w \<and>
      notifying w' = notifying w \<and>
      constructLog w' = constructLog w \<and>
      renderLog w' = renderLog w \<and>
      (\<forall>x. componentized w' x = componentized w x))"

definition steady :: "world \<Rightarrow> world \<Rightarrow> bool" where
  "steady w w' =
     (discreet w w' \<and>
      (\<forall>x. isVisible w' x = isVisible w x) \<and>
      (\<forall>r. api_render (heap w' r) = api_render (heap w r)) \<and>
      (\<forall>r. api_context (heap w' r) = api_context (heap w r)))"

text \<open>\<open>flag_and_queue_kept w w'\<close>: \<^verbatim>\<open>api.notifying\<close> and the queue are in
  \<open>w'\<close> as they were in \<open>w\<close>.\<close>

definition flag_and_queue_kept :: "world \<Rightarrow> world \<Rightarrow> bool" where
  "flag_and_queue_kept w w' =
     (notifying w' = notifying w \<and>
      registeredForNotifications w' = registeredForNotifications w)"

definition factories_keep :: "env \<Rightarrow> (world \<Rightarrow> world \<Rightarrow> bool) \<Rightarrow> bool" where
  "factories_keep env Q = (\<forall>f element this w. post (Q w) (construct env f element this w))"

definition methods_keep :: "env \<Rightarrow> (world \<Rightarrow> world \<Rightarrow> bool) \<Rightarrow> bool" where
  "methods_keep env Q = (\<forall>g this w. post (Q w) (invoke env g this w))"

text \<open>An entry of the queue that \<^verbatim>\<open>notifyAll\<close> renders: it has a
  \<^verbatim>\<open>render\<close> method and its context is visible.\<close>

definition renderable :: "world \<Rightarrow> ref \<Rightarrow> bool" where
  "renderable w componentAPI =
     (case api_render (heap w componentAPI) of
        None \<Rightarrow> False
      | Some render \<Rightarrow>
          (case api_context (heap w componentAPI) of
             None \<Rightarrow> False
           | Some c \<Rightarrow> isVisible w c))"

text \<open>The positions, counted from \<open>i\<close>, of the entries of a list that satisfy \<open>P\<close>.\<close>

fun hits :: "('a \<Rightarrow> bool) \<Rightarrow> nat \<Rightarrow> 'a list \<Rightarrow> nat list" where
  "hits P i [] = []"
| "hits P i (x # xs) = (if P x then [i] else []) @ hits P (Suc i) xs"

text \<open>The calls \<^verbatim>\<open>new oFunction(element)\<close> made so far for one element.\<close>

definition constructions :: "world \<Rightarrow> elem \<Rightarrow> (fref \<times> elem) list" where
  "constructions w element = filter (\<lambda>call. snd call = element) (constructLog w)"

text \<open>\<open>n\<close> calls of the same operation, one after the other.\<close>

fun repeat :: "nat \<Rightarrow> (world \<Rightarrow> unit outcome) \<Rightarrow> world \<Rightarrow> unit outcome" where
  "repeat 0 f w = Returns () w"
| "repeat (Suc n) f w = bind (f w) (\<lambda>u w'. repeat n f w')"

definition is_letter :: "char \<Rightarrow> bool" where
  "is_letter c =
     (let n = (of_char c :: nat) in (65 \<le> n \<and> n \<le> 90) \<or> (97 \<le> n \<and> n \<le> 122))"

text \<open>\<open>same_marks w w'\<close>: what has been scanned, what has been constructed, what is
  flagged and \<^verbatim>\<open>api.notifying\<close> are in \<open>w'\<close> as they were in \<open>w\<close>.\<close>

definition same_marks :: "world \<Rightarrow> world \<Rightarrow> bool" where
  "same_marks w w' =
     (componentsHash w' = componentsHash w \<and>
      constructLog w' = constructLog w \<and>
      notifying w' = notifying w \<and>
      (\<forall>x. componentized w' x = componentized w x))"

text \<open>The state of one element with respect to a pass that started in \<open>w\<close>: not yet
  instantiated, or instantiated once, by \<open>f\<close>.\<close>

definition pending :: "world \<Rightarrow> elem \<Rightarrow> world \<Rightarrow> bool" where
  "pending w element v =
     (\<not> componentized v element \<and> constructions v element = constructions w element \<and>
      componentsHash v = componentsHash w)"

definition made :: "world \<Rightarrow> elem \<Rightarrow> fref \<Rightarrow> world \<Rightarrow> bool" where
  "made w element f v =
     (componentized v element \<and>
      constructions v element = constructions w element @ [(f, element)] \<and>
      componentsHash v = componentsHash w)"

text \<open>\<open>flag_kept w w'\<close>: \<^verbatim>\<open>api.notifying\<close> is in \<open>w'\<close> as it was in
  \<open>w\<close>.\<close>

definition flag_kept :: "world \<Rightarrow> world \<Rightarrow> bool" where
  "flag_kept w w' = (notifying w' = notifying w)"

text \<open>Components whose methods do what the methods of \<open>env1\<close> do and then what
  those of \<open>env2\<close> do; and components whose methods moreover call
  \<^verbatim>\<open>componentLoader.notifyAll()\<close> in between, that is, at some point of their
  body. \<open>inner\<close> is the code of the components as the nested call finds it; it may
  be any code, also that of the re-entering components themselves.\<close>

definition in_sequence :: "env \<Rightarrow> env \<Rightarrow> env" where
  "in_sequence env1 env2 =
     env1\<lparr>invoke := (\<lambda>g this w.
            bind (invoke env1 g this w) (\<lambda>u w1. invoke env2 g this w1))\<rparr>"

definition reentering :: "env \<Rightarrow> env \<Rightarrow> env \<Rightarrow> env" where
  "reentering env1 inner env2 =
     env1\<lparr>invoke := (\<lambda>g this w.
            bind (invoke env1 g this w)
              (\<lambda>u w1. bind (notifyAll inner w1) (\<lambda>u w2. invoke env2 g this w2)))\<rparr>"

text \<open>\<open>settled w w'\<close>: steady, and no object made in \<open>w\<close> is unmade in
  \<open>w'\<close>.\<close>

definition settled :: "world \<Rightarrow> world \<Rightarrow> bool" where
  "settled w w' = (steady w w' \<and> next_ref w \<le> next_ref w')"

text \<open>Factories that make new objects: called with a \<^verbatim>\<open>this\<close> that has just
  been made, the body returns no object or function but \<^verbatim>\<open>this\<close> itself or one
  made during the call, leaves the visibility of the elements alone, and leaves the
  \<^verbatim>\<open>render\<close> method and the context of every object made before the call
  alone.\<close>

definition factories_make_new :: "env \<Rightarrow> bool" where
  "factories_make_new env =
     (\<forall>f element this w u w'.
        this < next_ref w \<longrightarrow> construct env f element this w = Returns u w' \<longrightarrow>
          (\<forall>x. isVisible w' x = isVisible w x) \<and>
          next_ref w \<le> next_ref w' \<and>
          (\<forall>r<this. api_render (heap w' r) = api_render (heap w r) \<and>
                     api_context (heap w' r) = api_context (heap w r)) \<and>
          (\<forall>r. u = Object r \<or> u = Function r \<longrightarrow> this \<le> r \<and> r < next_ref w'))"

text \<open>\<open>allocated w\<close>: every object in the queue and in the table of instances has
  been made. It holds when the loader is created, and a pass keeps it
  (\<open>initializeComponents_in_pass\<close>).\<close>

definition allocated :: "world \<Rightarrow> bool" where
  "allocated w =
     ((\<forall>r \<in> set (registeredForNotifications w). r < next_ref w) \<and>
      (\<forall>r \<in> ran (registeredComponents w). r < next_ref w))"

text \<open>What the loop body of \<^verbatim>\<open>initializeComponents\<close> has done when it has
  instantiated the element \<open>x\<close> from the world \<open>v\<close> and returned in \<open>v'\<close>,
  \<open>r\<close> being the instance: \<open>r\<close> is a new object, recorded under an id that was
  not in the table, its context is \<open>x\<close>, older objects and the visibility are as
  they were, and \<open>r\<close> was rendered if it has a \<^verbatim>\<open>render\<close> method and
  \<open>x\<close> is visible, appended to the queue if it has the method and \<open>x\<close> is not
  visible, and neither if it has no such method.\<close>

definition instantiated_as :: "elem \<Rightarrow> ref \<Rightarrow> world \<Rightarrow> world \<Rightarrow> bool" where
  "instantiated_as x r v v' =
     (next_ref v \<le> r \<and> r < next_ref v' \<and>
      (\<exists>componentId. registeredComponents v componentId = None \<and>
         registeredComponents v' = (registeredComponents v)(componentId \<mapsto> r)) \<and>
      api_context (heap v' r) = Some x \<and>
      (\<forall>r0<next_ref v. api_render (heap v' r0) = api_render (heap v r0) \<and>
                         api_context (heap v' r0) = api_context (heap v r0)) \<and>
      (\<forall>y. isVisible v' y = isVisible v y) \<and>
      (case api_render (heap v' r) of
         None \<Rightarrow> registeredForNotifications v' = registeredForNotifications v \<and>
                 renderLog v' = renderLog v
       | Some g \<Rightarrow>
           if isVisible v x
           then registeredForNotifications v' = registeredForNotifications v \<and>
                renderLog v' = renderLog v @ [r]
           else registeredForNotifications v' = registeredForNotifications v @ [r] \<and>
                renderLog v' = renderLog v))"

text \<open>The state of an object \<open>r\<close> in a world \<open>v\<close> that a pass started in
  \<open>w\<close> has reached: when \<open>r\<close> is in the table of instances and has a
  \<^verbatim>\<open>render\<close> method, it has been rendered once and is not in the queue if its
  element is visible, and is once in the queue and has not been rendered if its element
  is not visible; when \<open>r\<close> is not in the table, it is not in the queue and has not
  been rendered. \<open>in_pass w r v\<close> is what a pass keeps, for an object \<open>r\<close> that
  was not made before the pass.\<close>

definition accounted :: "world \<Rightarrow> ref \<Rightarrow> world \<Rightarrow> bool" where
  "accounted w r v =
     (if r \<in> ran (registeredComponents v)
      then (case api_render (heap v r) of
              None \<Rightarrow> True
            | Some g \<Rightarrow>
                (\<exists>element. api_context (heap v r) = Some element \<and>
                   (if isVisible v element
                    then count_list (registeredForNotifications v) r = 0 \<and>
                         count_list (renderLog v) r = count_list (renderLog w) r + 1
                    else count_list (registeredForNotifications v) r = 1 \<and>
                         count_list (renderLog v) r = count_list (renderLog w) r)))
      else count_list (registeredForNotifications v) r = 0 \<and>
           count_list (renderLog v) r = count_list (renderLog w) r)"

definition in_pass :: "world \<Rightarrow> ref \<Rightarrow> world \<Rightarrow> bool" where
  "in_pass w r v =
     (next_ref w \<le> next_ref v \<and> allocated v \<and>
      (\<forall>y. isVisible v y = isVisible w y) \<and>
      (\<exists>more. registeredForNotifications v = registeredForNotifications w @ more) \<and>
      accounted w r v)"

text \<open>\<open>has_instance w element v\<close>: the table of instances holds an object that was
  not made before \<open>w\<close> and whose context is \<open>element\<close>.\<close>

definition has_instance :: "world \<Rightarrow> elem \<Rightarrow> world \<Rightarrow> bool" where
  "has_instance w element v =
     (\<exists>r. next_ref w \<le> r \<and> r < next_ref v \<and> r \<in> ran (registeredComponents v) \<and>
          api_context (heap v r) = Some element)"

section \<open>Example worlds\<close>

text \<open>The names every object inherits from \<^verbatim>\<open>Object.prototype\<close> in a browser
  of the time of ECMAScript 5.\<close>

definition es5_object_names :: "string list" where
  "es5_object_names =
     [''constructor'', ''toString'', ''toLocaleString'', ''valueOf'', ''hasOwnProperty'',
      ''isPrototypeOf'', ''propertyIsEnumerable'', ''__proto__'', ''__defineGetter__'',
      ''__defineSetter__'', ''__lookupGetter__'', ''__lookupSetter__'']"

text \<open>A page of visible elements and a loader that has just been created: the world the
  concrete instances of the theorems start from.\<close>

definition plain_element :: element where
  "plain_element =
     \<lparr>attrs = Map.empty, display = ''block'', visibility = ''visible'', offsetParent = Some 0\<rparr>"

definition fresh_world :: world where
  "fresh_world =
     \<lparr>body = Node 0 [], elements = (\<lambda>e. plain_element), heap = (\<lambda>r. empty_object),
      next_ref = 0, object_names = es5_object_names, random = (\<lambda>k. k), random_pos = 0,
      componentsHash = Map.empty, availableComponents = [],
      registeredComponents = Map.empty, registeredForNotifications = [],
      notifying = False, constructLog = [], renderLog = []\<rparr>"

text \<open>Components whose methods do nothing, and whose factory returns what the table
  \<open>returns\<close> says.\<close>

definition quiet_env :: "(fref \<Rightarrow> js_value) \<Rightarrow> env" where
  "quiet_env returns =
     \<lparr>construct = (\<lambda>f element this w. Returns (returns f) w),
      invoke = (\<lambda>g this w. Returns () w)\<rparr>"

text \<open>Components written as constructors: the factory sets \<^verbatim>\<open>this.init\<close> and
  \<^verbatim>\<open>this.render\<close> and returns nothing; the methods do nothing.\<close>

definition widget_env :: env where
  "widget_env =
     \<lparr>construct = (\<lambda>f element this w.
        Returns Undefined
          (w\<lparr>heap := (heap w)(this := (heap w this)\<lparr>api_init := Some 1, api_render := Some 2\<rparr>)\<rparr>)),
      invoke = (\<lambda>g this w. Returns () w)\<rparr>"

text \<open>Components whose methods throw.\<close>

definition failing_env :: env where
  "failing_env =
     \<lparr>construct = (\<lambda>f element this w. Returns Undefined w),
      invoke = (\<lambda>g this w. Throws (Thrown ''render failed'') w)\<rparr>"

text \<open>The names an array inherits in ECMAScript 5.\<close>

definition es5_array_names :: "string list" where
  "es5_array_names =
     [''constructor'', ''toString'', ''toLocaleString'', ''concat'', ''join'', ''pop'',
      ''push'', ''reverse'', ''shift'', ''slice'', ''sort'', ''splice'', ''unshift'',
      ''indexOf'', ''lastIndexOf'', ''every'', ''some'', ''forEach'', ''map'', ''filter'',
      ''reduce'', ''reduceRight'', ''hasOwnProperty'', ''isPrototypeOf'',
      ''propertyIsEnumerable'', ''valueOf'', ''__proto__'']"

text \<open>The loader after \<^verbatim>\<open>componentLoader.register("knob", components.Knob)\<close>.\<close>

definition knob_registered :: world where
  "knob_registered = fresh_world\<lparr>availableComponents := [\<lparr>name = ''knob'', func = Some 1\<rparr>]\<rparr>"

text \<open>A page whose element \<open>4\<close> is marked \<^verbatim>\<open>class="js-component-widget"\<close>, and
  one whose element \<open>4\<close> has the marker inside a longer class token.\<close>

definition widget_page :: world where
  "widget_page =
     fresh_world\<lparr>body := Node 0 [Node 4 []],
                 elements := (elements fresh_world)
                   (4 := plain_element\<lparr>attrs := [''class'' \<mapsto> ''js-component-widget'']\<rparr>)\<rparr>"

definition inner_marker_page :: world where
  "inner_marker_page =
     fresh_world\<lparr>body := Node 0 [Node 4 []],
                 elements := (elements fresh_world)
                   (4 := plain_element\<lparr>attrs := [''class'' \<mapsto> ''my-js-component-foo'']\<rparr>)\<rparr>"

text \<open>The widget page with element \<open>4\<close> hidden (\<^verbatim>\<open>display: none\<close>); after the
  component for it has been created and initialized; after it has been queued; after
  the element has been shown; and, from the shown page, after a \<^verbatim>\<open>notifyAll\<close>
  in which \<^verbatim>\<open>render\<close> threw.\<close>

definition hidden_page :: world where
  "hidden_page =
     widget_page\<lparr>elements := (elements fresh_world)
        (4 := plain_element\<lparr>attrs := [''class'' \<mapsto> ''js-component-widget''],
                              display := ''none''\<rparr>)\<rparr>"

definition created_page :: world where
  "created_page =
     hidden_page\<lparr>elements := (elements fresh_world)
          (4 := plain_element\<lparr>attrs := [''class'' \<mapsto> ''js-component-widget'',
                                          ''data-componentized'' \<mapsto> ''true''],
                                display := ''none''\<rparr>),
        heap := (heap fresh_world)
          (0 := \<lparr>api_id = Some ''i140'', api_context = Some 4,
                 api_init = Some 1, api_render = Some 2\<rparr>),
        next_ref := 1, random_pos := 1,
        registeredComponents := [''i140'' \<mapsto> 0],
        constructLog := [(5, 4)]\<rparr>"

definition queued_page :: world where
  "queued_page = created_page\<lparr>registeredForNotifications := [0]\<rparr>"

definition shown_page :: world where
  "shown_page =
     queued_page\<lparr>elements := (elements queued_page)
        (4 := (elements queued_page 4)\<lparr>display := ''block''\<rparr>)\<rparr>"

definition blocked_page :: world where
  "blocked_page = shown_page\<lparr>renderLog := [0], notifying := True\<rparr>"

text \<open>A loader whose table of instances already holds the id \<^verbatim>\<open>i140\<close>.\<close>

definition crowded_world :: world where
  "crowded_world = fresh_world\<lparr>registeredComponents := [''i140'' \<mapsto> 3]\<rparr>"

text \<open>A page whose element \<open>4\<close> carries the markers of two components, \<^verbatim>\<open>a\<close>
  registered before \<^verbatim>\<open>b\<close>; the same after \<^verbatim>\<open>scan\<close>; and after
  \<^verbatim>\<open>initializeComponents\<close>.\<close>

definition two_marker_page :: world where
  "two_marker_page =
     fresh_world\<lparr>body := Node 0 [Node 4 []],
                 elements := (elements fresh_world)
                   (4 := plain_element\<lparr>attrs := [''class'' \<mapsto> ''js-component-a js-component-b'']\<rparr>),
                 availableComponents := [\<lparr>name = ''a'', func = Some 10\<rparr>,
                                         \<lparr>name = ''b'', func = Some 20\<rparr>]\<rparr>"

definition scanned_page :: world where
  "scanned_page = two_marker_page\<lparr>componentsHash := [''a'' \<mapsto> [4], ''b'' \<mapsto> [4]]\<rparr>"

definition instantiated_page :: world where
  "instantiated_page =
     scanned_page\<lparr>elements := (elements fresh_world)
          (4 := plain_element\<lparr>attrs := [''class'' \<mapsto> ''js-component-a js-component-b'',
                                          ''data-componentized'' \<mapsto> ''true'']\<rparr>),
        heap := (heap fresh_world)
          (0 := \<lparr>api_id = Some ''i140'', api_context = Some 4,
                 api_init = Some 1, api_render = Some 2\<rparr>),
        next_ref := 1, random_pos := 1,
        registeredComponents := [''i140'' \<mapsto> 0],
        constructLog := [(10, 4)], renderLog := [0]\<rparr>"

text \<open>A page with two hidden elements, \<open>4\<close> and \<open>6\<close>, marked
  \<^verbatim>\<open>class="js-component-widget"\<close>, and a loader in which \<^verbatim>\<open>widget\<close> is
  registered; the same after \<^verbatim>\<open>scan\<close>; after \<^verbatim>\<open>initializeComponents\<close>,
  with the instances \<open>0\<close> and \<open>1\<close> in the queue; after both elements have been
  shown; after a \<^verbatim>\<open>notifyAll\<close> that rendered both instances; and, from the shown
  page, after a \<^verbatim>\<open>notifyAll\<close> in which the \<^verbatim>\<open>render\<close> of instance
  \<open>0\<close> threw.\<close>

definition pair_page :: world where
  "pair_page =
     fresh_world\<lparr>body := Node 0 [Node 4 [], Node 6 []],
        elements := (elements fresh_world)
          (4 := plain_element\<lparr>attrs := [''class'' \<mapsto> ''js-component-widget''],
                                display := ''none''\<rparr>,
           6 := plain_element\<lparr>attrs := [''class'' \<mapsto> ''js-component-widget''],
                                display := ''none''\<rparr>),
        availableComponents := [\<lparr>name = ''widget'', func = Some 5\<rparr>]\<rparr>"

definition pair_scanned :: world where
  "pair_scanned = pair_page\<lparr>componentsHash := [''widget'' \<mapsto> [4, 6]]\<rparr>"

definition pair_queued :: world where
  "pair_queued =
     pair_scanned\<lparr>elements := (elements fresh_world)
          (4 := plain_element\<lparr>attrs := [''class'' \<mapsto> ''js-component-widget'',
                                          ''data-componentized'' \<mapsto> ''true''],
                                display := ''none''\<rparr>,
           6 := plain_element\<lparr>attrs := [''class'' \<mapsto> ''js-component-widget'',
                                          ''data-componentized'' \<mapsto> ''true''],
                                display := ''none''\<rparr>),
        heap := (heap fresh_world)
          (0 := \<lparr>api_id = Some ''i140'', api_context = Some 4,
                 api_init = Some 1, api_render = Some 2\<rparr>,
           1 := \<lparr>api_id = Some ''i141'', api_context = Some 6,
                 api_init = Some 1, api_render = Some 2\<rparr>),
        next_ref := 2, random_pos := 2,
        registeredComponents := [''i140'' \<mapsto> 0, ''i141'' \<mapsto> 1],
        registeredForNotifications := [0, 1],
        constructLog := [(5, 4), (5, 6)]\<rparr>"

definition pair_shown :: world where
  "pair_shown =
     pair_queued\<lparr>elements := (elements pair_queued)
        (4 := (elements pair_queued 4)\<lparr>display := ''block''\<rparr>,
         6 := (elements pair_queued 6)\<lparr>display := ''block''\<rparr>)\<rparr>"

definition pair_rendered :: world where
  "pair_rendered = pair_shown\<lparr>renderLog := [0, 1], registeredForNotifications := []\<rparr>"

definition pair_blocked :: world where
  "pair_blocked = pair_shown\<lparr>renderLog := [0], notifying := True\<rparr>"

text \<open>Components like those of \<open>widget_env\<close>, but the \<^verbatim>\<open>render\<close> method of
  the object \<open>0\<close> throws.\<close>

definition faulty_env :: env where
  "faulty_env =
     \<lparr>construct = construct widget_env,
      invoke = (\<lambda>g this w. if g = 2 \<and> this = 0 then Throws (Thrown ''render failed'') w
                            else Returns () w)\<rparr>"

text \<open>A factory that returns the same object at every call, as a component that keeps
  one \<^verbatim>\<open>api\<close> object for all its elements does. The object is \<open>0\<close>, made
  before the pass, with a \<^verbatim>\<open>render\<close> method. The page with the two hidden
  elements for such a component, after \<^verbatim>\<open>scan\<close>; after
  \<^verbatim>\<open>initializeComponents\<close>; after both elements have been shown; and after
  \<^verbatim>\<open>notifyAll\<close>.\<close>

definition shared_env :: env where
  "shared_env =
     \<lparr>construct = (\<lambda>f element this w. Returns (Object 0) w),
      invoke = (\<lambda>g this w. Returns () w)\<rparr>"

definition shared_scanned :: world where
  "shared_scanned =
     pair_scanned\<lparr>heap := (heap fresh_world)(0 := empty_object\<lparr>api_render := Some 2\<rparr>),
                  next_ref := 1\<rparr>"

definition shared_queued :: world where
  "shared_queued =
     shared_scanned\<lparr>elements := (elements fresh_world)
          (4 := plain_element\<lparr>attrs := [''class'' \<mapsto> ''js-component-widget'',
                                          ''data-componentized'' \<mapsto> ''true''],
                                display := ''none''\<rparr>,
           6 := plain_element\<lparr>attrs := [''class'' \<mapsto> ''js-component-widget'',
                                          ''data-componentized'' \<mapsto> ''true''],
                                display := ''none''\<rparr>),
        heap := (heap fresh_world)
          (0 := \<lparr>api_id = Some ''i141'', api_context = Some 6,
                 api_init = None, api_render = Some 2\<rparr>),
        next_ref := 3, random_pos := 2,
        registeredComponents := [''i140'' \<mapsto> 0, ''i141'' \<mapsto> 0],
        registeredForNotifications := [0, 0],
        constructLog := [(5, 4), (5, 6)]\<rparr>"

definition shared_shown :: world where
  "shared_shown =
     shared_queued\<lparr>elements := (elements shared_queued)
        (4 := (elements shared_queued 4)\<lparr>display := ''block''\<rparr>,
         6 := (elements shared_queued 6)\<lparr>display := ''block''\<rparr>)\<rparr>"

definition shared_rendered :: world where
  "shared_rendered = shared_shown\<lparr>renderLog := [0, 0], registeredForNotifications := []\<rparr>"

section \<open>Properties\<close>

subsection \<open>Outcomes\<close>

lemma post_simps [simp]:
  "post P (Returns x w) = P w" "post P (Throws e w) = P w" "post P Diverges = True"
  by (simp_all add: post_def)

lemma bind_simps [simp]:
  "bind (Returns x w) k = k x w" "bind (Throws e w) k = Throws e w" "bind Diverges k = Diverges"
  by (simp_all add: bind_def)

lemma bind_eq_Returns:
  "bind m k = Returns y w' \<longleftrightarrow> (\<exists>x w1. m = Returns x w1 \<and> k x w1 = Returns y w')"
  by (cases m) auto

lemma bind_eq_Throws:
  "bind m k = Throws e w' \<longleftrightarrow>
     m = Throws e w' \<or> (\<exists>x w1. m = Returns x w1 \<and> k x w1 = Throws e w')"
  by (cases m) auto

lemma post_bind:
  assumes "post P1 m"
    and "\<And>e w1. m = Throws e w1 \<Longrightarrow> P1 w1 \<Longrightarrow> P w1"
    and "\<And>x w1. m = Returns x w1 \<Longrightarrow> P1 w1 \<Longrightarrow> post P (k x w1)"
  shows "post P (bind m k)"
  using assms by (cases m) auto

lemma post_mono: "post P m \<Longrightarrow> (\<And>w. P w \<Longrightarrow> Q w) \<Longrightarrow> post Q m"
  by (cases m) auto

lemma post_forEach:
  assumes "I w" and "\<And>x v. x \<in> set xs \<Longrightarrow> I v \<Longrightarrow> post I (f x v)"
  shows "post I (forEach f xs w)"
  using assms
proof (induction xs arbitrary: w)
  case Nil
  then show ?case by simp
next
  case (Cons x xs)
  have "post I (f x w)" using Cons.prems by simp
  moreover have "post I (forEach f xs v)" if "I v" for v
    using that Cons.prems(2) by (intro Cons.IH) auto
  ultimately have "post I (bind (f x w) (\<lambda>u w'. forEach f xs w'))"
    by (intro post_bind [where ?P1.0 = I]) auto
  then show ?case by simp
qed

lemma methods_keepD: "methods_keep env Q \<Longrightarrow> post (Q w) (invoke env g this w)"
  by (simp add: methods_keep_def)

lemma factories_keepD: "factories_keep env Q \<Longrightarrow> post (Q w) (construct env f element this w)"
  by (simp add: factories_keep_def)

lemma discreet_refl [simp]: "discreet w w"
  by (simp add: discreet_def)

lemma steady_refl [simp]: "steady w w"
  by (simp add: steady_def)

subsection \<open>The id loop\<close>

lemma generateId_Some:
  "generateId w = Some y \<Longrightarrow>
     registeredComponents w (fst y) = None \<and>
     (\<exists>n. fst y = ''i14'' @ decimal n) \<and>
     (\<exists>p. random_pos w < p \<and> snd y = w\<lparr>random_pos := p\<rparr>)"
proof (erule generateId.raw_induct [rotated])
  fix loop :: "world \<Rightarrow> (string \<times> world) option" and w y
  assume IH: "\<And>x y. loop x = Some y \<Longrightarrow>
     registeredComponents x (fst y) = None \<and>
     (\<exists>n. fst y = ''i14'' @ decimal n) \<and>
     (\<exists>p. random_pos x < p \<and> snd y = x\<lparr>random_pos := p\<rparr>)"
  assume body: "(let componentId = ''i14'' @ decimal (random w (random_pos w));
            w' = w\<lparr>random_pos := Suc (random_pos w)\<rparr>
        in if registeredComponents w' componentId \<noteq> None then loop w'
           else Some (componentId, w')) = Some y"
  show "registeredComponents w (fst y) = None \<and>
     (\<exists>n. fst y = ''i14'' @ decimal n) \<and>
     (\<exists>p. random_pos w < p \<and> snd y = w\<lparr>random_pos := p\<rparr>)"
  proof (cases "registeredComponents w (''i14'' @ decimal (random w (random_pos w))) = None")
    case True
    with body show ?thesis by (auto simp: Let_def)
  next
    case False
    with body have "loop (w\<lparr>random_pos := Suc (random_pos w)\<rparr>) = Some y"
      by (auto simp: Let_def)
    from IH [OF this] obtain n p where
      "registeredComponents w (fst y) = None" "fst y = ''i14'' @ decimal n"
      "Suc (random_pos w) < p" "snd y = w\<lparr>random_pos := p\<rparr>" by auto
    then show ?thesis by (auto intro: Suc_lessD)
  qed
qed

lemma generateId_returns:
  "registeredComponents w (''i14'' @ decimal (random w (random_pos w + k))) = None \<Longrightarrow>
   \<exists>componentId w'. generateId w = Some (componentId, w')"
proof (induction k arbitrary: w)
  case 0
  then show ?case by (subst generateId.simps) (simp add: Let_def)
next
  case (Suc k)
  show ?case
  proof (cases "registeredComponents w (''i14'' @ decimal (random w (random_pos w))) = None")
    case True
    then show ?thesis by (subst generateId.simps) (simp add: Let_def)
  next
    case False
    have "\<exists>componentId w'. generateId (w\<lparr>random_pos := Suc (random_pos w)\<rparr>) = Some (componentId, w')"
      using Suc.prems by (intro Suc.IH) simp
    with False show ?thesis by (subst generateId.simps) (simp add: Let_def)
  qed
qed

subsection \<open>The notification pass\<close>

lemma renderable_cong:
  "(\<forall>x. isVisible w' x = isVisible w x) \<Longrightarrow>
   (\<forall>r. api_render (heap w' r) = api_render (heap w r)) \<Longrightarrow>
   (\<forall>r. api_context (heap w' r) = api_context (heap w r)) \<Longrightarrow>
   renderable w' = renderable w"
  by (auto simp: renderable_def fun_eq_iff split: option.splits)

lemma steady_renderable: "steady w w' \<Longrightarrow> renderable w' = renderable w"
  by (intro renderable_cong) (auto simp: steady_def)

lemma notify_each_steady:
  assumes mk: "methods_keep env steady"
  shows "notify_each env queue i toRemove w = Returns toRemove' w' \<Longrightarrow>
     steady (w\<lparr>renderLog := renderLog w @ filter (renderable w) queue\<rparr>) w' \<and>
     toRemove' = toRemove @ hits (renderable w) i queue"
proof (induction queue arbitrary: i toRemove w)
  case Nil
  then show ?case by simp
next
  case (Cons r queue)
  show ?case
  proof (cases "renderable w r")
    case False
    with Cons.prems have "notify_each env queue (Suc i) toRemove w = Returns toRemove' w'"
      by (auto simp: renderable_def split: option.splits if_splits)
    from Cons.IH [OF this] False show ?thesis by simp
  next
    case True
    then obtain render c where r: "api_render (heap w r) = Some render"
      "api_context (heap w r) = Some c" "isVisible w c"
      by (auto simp: renderable_def split: option.splits)
    let ?w1 = "w\<lparr>renderLog := renderLog w @ [r]\<rparr>"
    from Cons.prems r obtain w2 where
      call: "invoke env render r ?w1 = Returns () w2"
      and rest: "notify_each env queue (Suc i) (toRemove @ [i]) w2 = Returns toRemove' w'"
      by (auto simp: call_render_def bind_eq_Returns)
    from methods_keepD [OF mk, of ?w1 render r] call have st: "steady ?w1 w2" by simp
    then have same: "renderable w2 = renderable w"
      by (intro renderable_cong) (auto simp: steady_def isVisible_def)
    from Cons.IH [OF rest] same st True show ?thesis
      by (simp add: steady_def discreet_def isVisible_def componentized_def getAttribute_def)
  qed
qed

lemma hits_bounds: "k \<in> set (hits P i xs) \<Longrightarrow> i \<le> k \<and> k < i + length xs"
  by (induction xs arbitrary: i) (fastforce split: if_splits)+

lemma hits_append:
  "hits P i (xs @ [x]) = hits P i xs @ (if P x then [i + length xs] else [])"
  by (induction xs arbitrary: i) auto

lemma hits_sorted: "sorted_wrt (<) (hits P i xs)"
proof (induction xs arbitrary: i)
  case Nil
  then show ?case by simp
next
  case (Cons x xs)
  have "i < k" if "k \<in> set (hits P (Suc i) xs)" for k
    using hits_bounds [OF that] by simp
  with Cons.IH [of "Suc i"] show ?case by (auto simp: sorted_wrt_append)
qed

lemma splice1_append: "i < length xs \<Longrightarrow> splice1 i (xs @ ys) = splice1 i xs @ ys"
  by (simp add: splice1_def)

lemma splice1_last: "splice1 (length xs) (xs @ [x]) = xs"
  by (simp add: splice1_def)

lemma length_splice1: "i < length xs \<Longrightarrow> length (splice1 i xs) = length xs - 1"
  by (simp add: splice1_def)

lemma splice_popped_append:
  "sorted_wrt (>) popped \<Longrightarrow> (\<forall>i \<in> set popped. i < length xs) \<Longrightarrow>
   splice_popped popped (xs @ ys) = splice_popped popped xs @ ys"
proof (induction popped arbitrary: xs)
  case Nil
  then show ?case by simp
next
  case (Cons i popped)
  have i: "i < length xs" using Cons.prems by simp
  have bound: "\<forall>j \<in> set popped. j < length (splice1 i xs)"
    using Cons.prems i by (fastforce simp: length_splice1)
  have "sorted_wrt (>) popped" using Cons.prems by simp
  from this bound
  have "splice_popped popped (splice1 i xs @ ys) = splice_popped popped (splice1 i xs) @ ys"
    by (rule Cons.IH)
  then show ?case using i by (simp add: splice1_append)
qed

lemma splice_popped_hits:
  "splice_popped (rev (hits P 0 xs)) xs = filter (\<lambda>x. \<not> P x) xs"
proof (induction xs rule: rev_induct)
  case Nil
  then show ?case by simp
next
  case (snoc x xs)
  have sorted: "sorted_wrt (>) (rev (hits P 0 xs))"
    using hits_sorted [of P 0 xs] by (simp add: sorted_wrt_rev)
  have bound: "\<forall>i \<in> set (rev (hits P 0 xs)). i < length xs"
    using hits_bounds [of _ P 0 xs] by auto
  show ?case
  proof (cases "P x")
    case True
    then show ?thesis using snoc.IH by (simp add: hits_append splice1_last)
  next
    case False
    then show ?thesis
      using snoc.IH splice_popped_append [OF sorted bound, of "[x]"] by (simp add: hits_append)
  qed
qed

lemma notifyAll_steady:
  assumes mk: "methods_keep env steady"
    and idle: "\<not> notifying w"
    and run: "notifyAll env w = Returns u w'"
  shows "renderLog w' = renderLog w @ filter (renderable w) (registeredForNotifications w)"
    and "registeredForNotifications w' =
           filter (\<lambda>r. \<not> renderable w r) (registeredForNotifications w)"
    and "\<not> notifying w'"
    and "renderable w' = renderable w"
proof -
  let ?q = "registeredForNotifications w"
  let ?w0 = "w\<lparr>notifying := True\<rparr>"
  from run idle obtain toRemove w1 where
    loop: "notify_each env ?q 0 [] ?w0 = Returns toRemove w1"
    and w': "w' = w1\<lparr>registeredForNotifications :=
                       splice_popped (rev toRemove) (registeredForNotifications w1),
                     notifying := False\<rparr>"
    by (auto simp: notifyAll_def bind_eq_Returns)
  have same: "renderable ?w0 = renderable w"
    by (intro renderable_cong) (auto simp: isVisible_def)
  from notify_each_steady [OF mk loop] have
    st: "steady (?w0\<lparr>renderLog := renderLog ?w0 @ filter (renderable ?w0) ?q\<rparr>) w1"
    and tr: "toRemove = hits (renderable ?w0) 0 ?q" by auto
  from st have q1: "registeredForNotifications w1 = ?q" by (simp add: steady_def discreet_def)
  show "renderLog w' = renderLog w @ filter (renderable w) ?q"
    using st same by (simp add: w' steady_def discreet_def)
  show "registeredForNotifications w' = filter (\<lambda>r. \<not> renderable w r) ?q"
    using tr same by (simp add: w' q1 splice_popped_hits)
  show "\<not> notifying w'" by (simp add: w')
  have "renderable w1 = renderable ?w0"
    using st by (intro renderable_cong) (auto simp: steady_def isVisible_def)
  moreover have "renderable w' = renderable w1"
    by (intro renderable_cong) (auto simp: w' isVisible_def)
  ultimately show "renderable w' = renderable w" using same by simp
qed

text \<open>A \<^verbatim>\<open>notifyAll\<close> called while \<^verbatim>\<open>api.notifying\<close> is set returns at
  once.\<close>

lemma notifyAll_flagged: "notifying w \<Longrightarrow> notifyAll env w = Returns () w"
  by (simp add: notifyAll_def)

text \<open>The methods a \<^verbatim>\<open>notifyAll\<close> invokes run while \<^verbatim>\<open>api.notifying\<close> is
  set, when the methods do not write the flag themselves: what the methods would do in a
  world where the flag is clear has no bearing on the call.\<close>

lemma notify_each_agree:
  assumes mk: "methods_keep env flag_kept"
    and agree: "\<And>g this v. notifying v \<Longrightarrow> invoke env' g this v = invoke env g this v"
  shows "notifying w \<Longrightarrow>
     notify_each env' queue i toRemove w = notify_each env queue i toRemove w"
proof (induction queue arbitrary: i toRemove w)
  case Nil
  then show ?case by simp
next
  case (Cons r queue)
  let ?w1 = "w\<lparr>renderLog := renderLog w @ [r]\<rparr>"
  have flag1: "notifying ?w1" using Cons.prems by simp
  have same: "invoke env' render r ?w1 = invoke env render r ?w1" for render
    using flag1 by (rule agree)
  have rest: "bind (invoke env render r ?w1)
                (\<lambda>u w'. notify_each env' queue (Suc i) (toRemove @ [i]) w') =
              bind (invoke env render r ?w1)
                (\<lambda>u w'. notify_each env queue (Suc i) (toRemove @ [i]) w')" for render
  proof (cases "invoke env render r ?w1")
    case (Returns u w2)
    have "post (flag_kept ?w1) (invoke env render r ?w1)" using mk by (rule methods_keepD)
    with Returns flag1 have "notifying w2" by (simp add: flag_kept_def)
    then show ?thesis using Returns by (simp add: Cons.IH)
  qed simp_all
  show ?case
    using Cons.prems
    by (simp add: call_render_def same rest Cons.IH split: option.splits)
qed

lemma notifyAll_agree:
  assumes mk: "methods_keep env flag_kept"
    and agree: "\<And>g this v. notifying v \<Longrightarrow> invoke env' g this v = invoke env g this v"
  shows "notifyAll env' w = notifyAll env w"
  by (simp add: notifyAll_def notify_each_agree [OF mk agree])

lemma in_sequence_flag:
  assumes mk1: "methods_keep env1 flag_kept" and mk2: "methods_keep env2 flag_kept"
  shows "methods_keep (in_sequence env1 env2) flag_kept"
  unfolding methods_keep_def
proof (intro allI)
  fix g this w
  have "post (flag_kept w) (invoke env1 g this w)" using mk1 by (rule methods_keepD)
  then have "post (flag_kept w) (bind (invoke env1 g this w) (\<lambda>u w1. invoke env2 g this w1))"
  proof (rule post_bind)
    fix u w1
    assume 1: "flag_kept w w1"
    have "post (flag_kept w1) (invoke env2 g this w1)" using mk2 by (rule methods_keepD)
    then show "post (flag_kept w) (invoke env2 g this w1)"
      by (rule post_mono) (use 1 in \<open>simp add: flag_kept_def\<close>)
  qed simp
  then show "post (flag_kept w) (invoke (in_sequence env1 env2) g this w)"
    by (simp add: in_sequence_def)
qed

lemma reentering_invoke:
  assumes mk1: "methods_keep env1 flag_kept" and flag: "notifying w"
  shows "invoke (reentering env1 inner env2) g this w = invoke (in_sequence env1 env2) g this w"
proof (cases "invoke env1 g this w")
  case (Returns u w1)
  have "post (flag_kept w) (invoke env1 g this w)" using mk1 by (rule methods_keepD)
  with Returns flag have "notifying w1" by (simp add: flag_kept_def)
  with Returns show ?thesis by (simp add: reentering_def in_sequence_def notifyAll_flagged)
qed (simp_all add: reentering_def in_sequence_def)

lemma notify_each_Throws:
  assumes mk: "methods_keep env flag_and_queue_kept"
  shows "notify_each env queue i toRemove w = Throws e w' \<Longrightarrow> flag_and_queue_kept w w'"
proof (induction queue arbitrary: i toRemove w)
  case Nil
  then show ?case by simp
next
  case (Cons r queue)
  show ?case
  proof (cases "api_render (heap w r)")
    case None
    with Cons.prems Cons.IH show ?thesis by auto
  next
    case (Some render)
    show ?thesis
    proof (cases "api_context (heap w r)")
      case None
      with Some Cons.prems show ?thesis by (auto simp: flag_and_queue_kept_def)
    next
      case ctxt: (Some c)
      show ?thesis
      proof (cases "isVisible w c")
        case False
        with Some ctxt Cons.prems Cons.IH show ?thesis by auto
      next
        case True
        let ?w1 = "w\<lparr>renderLog := renderLog w @ [r]\<rparr>"
        have keep: "post (flag_and_queue_kept ?w1) (invoke env render r ?w1)"
          using mk by (rule methods_keepD)
        from Cons.prems Some ctxt True
        consider "invoke env render r ?w1 = Throws e w'"
          | w2 where "invoke env render r ?w1 = Returns () w2"
              "notify_each env queue (Suc i) (toRemove @ [i]) w2 = Throws e w'"
          by (auto simp: call_render_def bind_eq_Throws)
        then show ?thesis
        proof cases
          case 1
          with keep show ?thesis by (simp add: flag_and_queue_kept_def)
        next
          case 2
          with keep Cons.IH [OF 2(2)] show ?thesis by (simp add: flag_and_queue_kept_def)
        qed
      qed
    qed
  qed
qed

lemma count_list_filter: "count_list (filter P xs) x = (if P x then count_list xs x else 0)"
  by (induction xs) auto

lemma repeat_noop: "(\<And>v. f v = Returns () v) \<Longrightarrow> repeat n f w = Returns () w"
  by (induction n) auto

lemma repeat_fixed: "f w = Returns () w \<Longrightarrow> repeat n f w = Returns () w"
  by (induction n) auto

lemma decimal_digit: "n < 10 \<Longrightarrow> decimal n = [digit n]"
  by (simp add: decimal.simps)

lemma generateId_first:
  "registeredComponents w (''i14'' @ decimal (random w (random_pos w))) = None \<Longrightarrow>
   generateId w = Some (''i14'' @ decimal (random w (random_pos w)),
                        w\<lparr>random_pos := Suc (random_pos w)\<rparr>)"
  by (subst generateId.simps) (simp add: Let_def)

subsection \<open>Creating and instantiating components\<close>

lemma assign_id_context_Returns:
  "assign_id_context v componentId element w = Returns r w' \<Longrightarrow>
     (v = Object r \<or> v = Function r) \<and>
     w' = w\<lparr>heap := (heap w)(r := (heap w r)\<lparr>api_id := Some componentId,
                                              api_context := Some element\<rparr>)\<rparr>"
  by (cases v) (auto simp: assign_id_context_def)

lemma js_new_Returns:
  "js_new env f element w = Returns v w' \<Longrightarrow> (\<exists>r. v = Object r \<or> v = Function r)"
proof -
  assume "js_new env f element w = Returns v w'"
  then obtain x where "v = (case x of Object r \<Rightarrow> Object r | Function r \<Rightarrow> Function r
                            | _ \<Rightarrow> Object (next_ref w))"
    by (auto simp: js_new_def Let_def bind_eq_Returns)
  then show ?thesis by (cases x) auto
qed

lemma create_component_context:
  assumes mk: "methods_keep env steady"
    and run: "create_component env sName f element w = Returns r w'"
  shows "api_context (heap w' r) = Some element"
proof -
  from run obtain v w2 componentId w3 w4 where
    gen: "generateId w2 = Some (componentId, w3)"
    and asg: "assign_id_context v componentId element w3 = Returns r w4"
    and ini: "call_init env r (w4\<lparr>registeredComponents :=
                (registeredComponents w4)(componentId \<mapsto> r)\<rparr>) = Returns () w'"
    by (auto simp: create_component_def bind_eq_Returns split: option.splits if_splits)
  let ?w5 = "w4\<lparr>registeredComponents := (registeredComponents w4)(componentId \<mapsto> r)\<rparr>"
  from assign_id_context_Returns [OF asg] have c4: "api_context (heap w4 r) = Some element"
    by auto
  have "post (steady ?w5) (call_init env r ?w5)"
    using methods_keepD [OF mk] by (simp add: call_init_def split: option.splits)
  with ini have "steady ?w5 w'" by simp
  then have "api_context (heap w' r) = api_context (heap ?w5 r)" by (simp add: steady_def)
  with c4 show ?thesis by simp
qed

lemma same_marks_refl [simp]: "same_marks w w"
  by (simp add: same_marks_def)

lemma same_marks_trans: "same_marks a b \<Longrightarrow> same_marks b c \<Longrightarrow> same_marks a c"
  by (simp add: same_marks_def)

lemma discreet_marks: "discreet w w' \<Longrightarrow> same_marks w w'"
  by (simp add: discreet_def same_marks_def)

lemma steady_discreet: "methods_keep env steady \<Longrightarrow> methods_keep env discreet"
  unfolding methods_keep_def
proof (intro allI)
  fix g this w
  assume "\<forall>g this w. post (steady w) (invoke env g this w)"
  then have "post (steady w) (invoke env g this w)" by blast
  then show "post (discreet w) (invoke env g this w)"
    by (rule post_mono) (simp add: steady_def)
qed

lemma componentized_setAttribute:
  "componentized (setAttribute x ''data-componentized'' ''true'' w) y = (y = x \<or> componentized w y)"
  by (simp add: componentized_def setAttribute_def getAttribute_def)

lemma js_new_marks:
  assumes fk: "factories_keep env discreet"
  shows "post (same_marks (w\<lparr>constructLog := constructLog w @ [(f, element)]\<rparr>))
           (js_new env f element w)"
proof -
  let ?w1 = "w\<lparr>heap := (heap w)(next_ref w := empty_object), next_ref := Suc (next_ref w),
               constructLog := constructLog w @ [(f, element)]\<rparr>"
  let ?Q = "same_marks (w\<lparr>constructLog := constructLog w @ [(f, element)]\<rparr>)"
  have start: "?Q ?w1"
    by (simp add: same_marks_def componentized_def getAttribute_def)
  have "post (discreet ?w1) (construct env f element (next_ref w) ?w1)"
    using fk by (rule factories_keepD)
  then have "post ?Q (construct env f element (next_ref w) ?w1)"
    by (rule post_mono) (rule same_marks_trans [OF start], rule discreet_marks)
  then show ?thesis
    unfolding js_new_def Let_def by (rule post_bind) auto
qed

lemma call_init_marks:
  assumes mk: "methods_keep env discreet"
  shows "post (same_marks w) (call_init env r w)"
proof (cases "api_init (heap w r)")
  case None
  then show ?thesis by (simp add: call_init_def)
next
  case (Some init)
  have "post (discreet w) (invoke env init r w)" using mk by (rule methods_keepD)
  then show ?thesis using Some by (simp add: call_init_def post_mono discreet_marks)
qed

lemma render_or_defer_marks:
  assumes mk: "methods_keep env discreet"
  shows "post (same_marks w) (render_or_defer env r x w)"
proof (cases "api_render (heap w r)")
  case None
  then show ?thesis by (simp add: render_or_defer_def)
next
  case (Some render)
  let ?w1 = "w\<lparr>renderLog := renderLog w @ [r]\<rparr>"
  have "post (discreet ?w1) (invoke env render r ?w1)" using mk by (rule methods_keepD)
  then have "post (same_marks w) (invoke env render r ?w1)"
    by (rule post_mono)
       (simp add: discreet_def same_marks_def componentized_def getAttribute_def)
  then show ?thesis
    using Some
    by (simp add: render_or_defer_def call_render_def same_marks_def componentized_def
          getAttribute_def)
qed

text \<open>A property of the world that the code of the components keeps, and that does not
  depend on the objects, the position in the random numbers and the table of instances,
  holds after \<^verbatim>\<open>create_component\<close> if it holds when the factory is
  called.\<close>

lemma create_component_inv:
  assumes fk: "factories_keep env discreet" and mk: "methods_keep env discreet"
    and callback: "\<And>v v'. Q v \<Longrightarrow> discreet v v' \<Longrightarrow> Q v'"
    and heap_step: "\<And>v h. Q v \<Longrightarrow> Q (v\<lparr>heap := h\<rparr>)"
    and pos_step: "\<And>v p. Q v \<Longrightarrow> Q (v\<lparr>random_pos := p\<rparr>)"
    and table_step: "\<And>v t. Q v \<Longrightarrow> Q (v\<lparr>registeredComponents := t\<rparr>)"
    and start: "Q (setAttribute x ''data-componentized'' ''true'' w
                     \<lparr>heap := (heap w)(next_ref w := empty_object),
                      next_ref := Suc (next_ref w),
                      constructLog := constructLog w @ [(f, x)]\<rparr>)"
  shows "post Q (create_component env sName f x w)"
proof -
  let ?wa = "setAttribute x ''data-componentized'' ''true'' w"
  let ?w1 = "?wa\<lparr>heap := (heap w)(next_ref w := empty_object), next_ref := Suc (next_ref w),
                 constructLog := constructLog w @ [(f, x)]\<rparr>"
  have wa: "heap ?wa = heap w" "next_ref ?wa = next_ref w" "constructLog ?wa = constructLog w"
    by (simp_all add: setAttribute_def)
  have "post (discreet ?w1) (construct env f x (next_ref w) ?w1)"
    using fk by (rule factories_keepD)
  then have "post Q (construct env f x (next_ref w) ?w1)"
    by (rule post_mono) (rule callback [OF start])
  then have new: "post Q (js_new env f x ?wa)"
    unfolding js_new_def Let_def wa by (rule post_bind) auto
  have rest: "post Q (case generateId w2 of
            None \<Rightarrow> Diverges
          | Some (componentId, w3) \<Rightarrow>
              bind (assign_id_context componentAPI componentId x w3)
                (\<lambda>r w4.
                   if \<not> truthy componentAPI \<or> typeof componentAPI \<noteq> ''object''
                   then Throws (Thrown (no_api_message sName)) w4
                   else
                     bind (call_init env r
                             (w4\<lparr>registeredComponents :=
                                   (registeredComponents w4)(componentId \<mapsto> r)\<rparr>))
                       (\<lambda>u w6. Returns r w6)))" if Q2: "Q w2" for componentAPI w2
  proof (cases "generateId w2")
    case None
    then show ?thesis by simp
  next
    case (Some y)
    obtain componentId w3 where y: "y = (componentId, w3)" by (cases y)
    from generateId_Some [OF Some] y obtain p where "w3 = w2\<lparr>random_pos := p\<rparr>" by auto
    with Q2 have Q3: "Q w3" by (simp add: pos_step)
    have asg: "post Q (assign_id_context componentAPI componentId x w3)"
      using Q3 by (cases componentAPI) (simp_all add: assign_id_context_def heap_step)
    have "post Q (bind (assign_id_context componentAPI componentId x w3)
                (\<lambda>r w4.
                   if \<not> truthy componentAPI \<or> typeof componentAPI \<noteq> ''object''
                   then Throws (Thrown (no_api_message sName)) w4
                   else
                     bind (call_init env r
                             (w4\<lparr>registeredComponents :=
                                   (registeredComponents w4)(componentId \<mapsto> r)\<rparr>))
                       (\<lambda>u w6. Returns r w6)))"
      using asg
    proof (rule post_bind)
      fix r w4
      assume Q4: "Q w4"
      let ?w5 = "w4\<lparr>registeredComponents := (registeredComponents w4)(componentId \<mapsto> r)\<rparr>"
      have "post (discreet ?w5) (call_init env r ?w5)"
        using methods_keepD [OF mk] by (simp add: call_init_def split: option.splits)
      then have "post Q (call_init env r ?w5)"
        by (rule post_mono) (rule callback [OF table_step [OF Q4]])
      then have "post Q (bind (call_init env r ?w5) (\<lambda>u w6. Returns r w6))"
        by (rule post_bind) auto
      with Q4 show "post Q (if \<not> truthy componentAPI \<or> typeof componentAPI \<noteq> ''object''
                   then Throws (Thrown (no_api_message sName)) w4
                   else bind (call_init env r ?w5) (\<lambda>u w6. Returns r w6))"
        by simp
    qed simp
    with Some y show ?thesis by simp
  qed
  show ?thesis
    unfolding create_component_def using new
  proof (rule post_bind)
    fix componentAPI w2
    assume "Q w2"
    then show "post Q (case generateId w2 of
            None \<Rightarrow> Diverges
          | Some (componentId, w3) \<Rightarrow>
              bind (assign_id_context componentAPI componentId x w3)
                (\<lambda>r w4.
                   if \<not> truthy componentAPI \<or> typeof componentAPI \<noteq> ''object''
                   then Throws (Thrown (no_api_message sName)) w4
                   else
                     bind (call_init env r
                             (w4\<lparr>registeredComponents :=
                                   (registeredComponents w4)(componentId \<mapsto> r)\<rparr>))
                       (\<lambda>u w6. Returns r w6)))"
      by (rule rest)
  qed simp
qed

lemma create_component_marks:
  assumes fk: "factories_keep env discreet" and mk: "methods_keep env discreet"
  shows "post (same_marks (setAttribute x ''data-componentized'' ''true'' w
                 \<lparr>constructLog := constructLog w @ [(f, x)]\<rparr>))
           (create_component env sName f x w)"
  using fk mk
proof (rule create_component_inv)
  fix v v'
  assume "same_marks (setAttribute x ''data-componentized'' ''true'' w
                 \<lparr>constructLog := constructLog w @ [(f, x)]\<rparr>) v" "discreet v v'"
  then show "same_marks (setAttribute x ''data-componentized'' ''true'' w
                 \<lparr>constructLog := constructLog w @ [(f, x)]\<rparr>) v'"
    by (auto intro: same_marks_trans discreet_marks)
qed (simp_all add: same_marks_def componentized_def getAttribute_def setAttribute_def)

lemma create_component_renders_nothing:
  assumes fk: "factories_keep env discreet" and mk: "methods_keep env discreet"
  shows "post (\<lambda>v. renderLog v = renderLog w \<and>
                    registeredForNotifications v = registeredForNotifications w)
           (create_component env sName f x w)"
  using fk mk
  by (rule create_component_inv) (simp_all add: discreet_def setAttribute_def)

text \<open>A component that is created is recorded under an id that was not in the table.\<close>

lemma create_component_records_new_id:
  assumes fk: "factories_keep env discreet" and mk: "methods_keep env discreet"
    and run: "create_component env sName f x w = Returns r w'"
  shows "\<exists>componentId. registeredComponents w componentId = None \<and>
           registeredComponents w' = (registeredComponents w)(componentId \<mapsto> r)"
proof -
  let ?wa = "setAttribute x ''data-componentized'' ''true'' w"
  let ?w1 = "?wa\<lparr>heap := (heap ?wa)(next_ref ?wa := empty_object),
                 next_ref := Suc (next_ref ?wa),
                 constructLog := constructLog ?wa @ [(f, x)]\<rparr>"
  from run obtain v w2 componentId w3 w4 where
    new: "js_new env f x ?wa = Returns v w2"
    and gen: "generateId w2 = Some (componentId, w3)"
    and asg: "assign_id_context v componentId x w3 = Returns r w4"
    and ini: "call_init env r (w4\<lparr>registeredComponents :=
                (registeredComponents w4)(componentId \<mapsto> r)\<rparr>) = Returns () w'"
    by (auto simp: create_component_def bind_eq_Returns split: option.splits if_splits)
  let ?w5 = "w4\<lparr>registeredComponents := (registeredComponents w4)(componentId \<mapsto> r)\<rparr>"
  from new obtain u where "construct env f x (next_ref ?wa) ?w1 = Returns u w2"
    by (auto simp: js_new_def Let_def bind_eq_Returns)
  with factories_keepD [OF fk, of ?w1 f x "next_ref ?wa"] have "discreet ?w1 w2" by simp
  then have t2: "registeredComponents w2 = registeredComponents w"
    by (simp add: discreet_def setAttribute_def)
  from generateId_Some [OF gen] obtain p where
    fresh: "registeredComponents w2 componentId = None" and w3: "w3 = w2\<lparr>random_pos := p\<rparr>"
    by auto
  from assign_id_context_Returns [OF asg] have t4: "registeredComponents w4 = registeredComponents w3"
    by auto
  have "post (discreet ?w5) (call_init env r ?w5)"
    using methods_keepD [OF mk] by (simp add: call_init_def split: option.splits)
  with ini have "discreet ?w5 w'" by simp
  then have "registeredComponents w' = (registeredComponents w4)(componentId \<mapsto> r)"
    by (simp add: discreet_def)
  with t2 t4 w3 fresh show ?thesis by auto
qed

text \<open>What instantiating an element that is not flagged does to the marks, whether the
  call returns or throws.\<close>

lemma instantiate_marks:
  assumes fk: "factories_keep env discreet" and mk: "methods_keep env discreet"
    and unflagged: "\<not> componentized w x"
  shows "post (\<lambda>w'. componentsHash w' = componentsHash w \<and>
                    constructLog w' = constructLog w @ [(f, x)] \<and>
                    notifying w' = notifying w \<and>
                    (\<forall>y. componentized w' y = (y = x \<or> componentized w y)))
           (instantiate env sName (Some f) x w)"
proof -
  let ?wb = "setAttribute x ''data-componentized'' ''true'' w
               \<lparr>constructLog := constructLog w @ [(f, x)]\<rparr>"
  have "post (same_marks ?wb) (create_component env sName f x w)"
    using fk mk by (rule create_component_marks)
  then have "post (same_marks ?wb)
     (bind (create_component env sName f x w) (\<lambda>r w6. render_or_defer env r x w6))"
  proof (rule post_bind)
    fix r w6
    assume "same_marks ?wb w6"
    moreover have "post (same_marks w6) (render_or_defer env r x w6)"
      using mk by (rule render_or_defer_marks)
    ultimately show "post (same_marks ?wb) (render_or_defer env r x w6)"
      by (auto intro: post_mono same_marks_trans)
  qed simp
  then have "post (same_marks ?wb) (instantiate env sName (Some f) x w)"
    using unflagged by (simp add: instantiate_def)
  then show ?thesis
    by (rule post_mono)
       (simp add: same_marks_def componentized_setAttribute [symmetric],
        simp add: setAttribute_def componentized_def getAttribute_def)
qed

lemma forEach_append:
  "forEach f (xs @ ys) w = bind (forEach f xs w) (\<lambda>u w'. forEach f ys w')"
proof (induction xs arbitrary: w)
  case Nil
  then show ?case by simp
next
  case (Cons x xs)
  then show ?case by (cases "f x w") simp_all
qed

lemma forEach_noop: "(\<And>x v. x \<in> set xs \<Longrightarrow> f x v = Returns () v) \<Longrightarrow> forEach f xs w = Returns () w"
  by (induction xs) auto

lemma forEach_fixed:
  "(\<And>x. x \<in> set xs \<Longrightarrow> f x w = Returns () w) \<Longrightarrow> forEach f xs w = Returns () w"
  by (induction xs) auto

lemma instantiate_componentized:
  "componentized w x \<Longrightarrow> instantiate env sName oFunction x w = Returns () w"
  by (simp add: instantiate_def split: option.splits)

lemma instantiate_undefined: "instantiate env sName None x w = Returns () w"
  by (simp add: instantiate_def)

lemma instantiate_other_pending:
  assumes fk: "factories_keep env discreet" and mk: "methods_keep env discreet"
    and other: "x \<noteq> element" and before: "pending w element v"
  shows "post (pending w element) (instantiate env sName oFunction x v)"
proof (cases "oFunction = None \<or> componentized v x")
  case True
  then have "instantiate env sName oFunction x v = Returns () v"
    by (auto simp: instantiate_undefined instantiate_componentized)
  with before show ?thesis by simp
next
  case False
  then obtain f where f: "oFunction = Some f" and unflagged: "\<not> componentized v x" by auto
  show ?thesis
    unfolding f
    by (rule post_mono [OF instantiate_marks [OF fk mk unflagged]])
       (use other before in \<open>simp add: pending_def constructions_def\<close>)
qed

lemma instantiate_made:
  assumes fk: "factories_keep env discreet" and mk: "methods_keep env discreet"
    and after: "made w element f v"
  shows "post (made w element f) (instantiate env sName oFunction x v)"
proof (cases "oFunction = None \<or> componentized v x")
  case True
  then have "instantiate env sName oFunction x v = Returns () v"
    by (auto simp: instantiate_undefined instantiate_componentized)
  with after show ?thesis by simp
next
  case False
  then obtain g where g: "oFunction = Some g" and unflagged: "\<not> componentized v x" by auto
  from unflagged after have other: "x \<noteq> element" by (auto simp: made_def)
  show ?thesis
    unfolding g
    by (rule post_mono [OF instantiate_marks [OF fk mk unflagged]])
       (use other after in \<open>simp add: made_def constructions_def\<close>)
qed

lemma instantiate_pending_made:
  assumes fk: "factories_keep env discreet" and mk: "methods_keep env discreet"
    and before: "pending w element v"
  shows "post (made w element f) (instantiate env sName (Some f) element v)"
proof -
  from before have unflagged: "\<not> componentized v element" by (simp add: pending_def)
  show ?thesis
    by (rule post_mono [OF instantiate_marks [OF fk mk unflagged]])
       (use before in \<open>simp add: pending_def made_def constructions_def\<close>)
qed

lemma bucket_made:
  assumes fk: "factories_keep env discreet" and mk: "methods_keep env discreet"
    and after: "made w element f v"
  shows "post (made w element f) (forEach (instantiate env sName oFunction) bucket v)"
  using after by (rule post_forEach) (rule instantiate_made [OF fk mk])

lemma bucket_pending:
  assumes fk: "factories_keep env discreet" and mk: "methods_keep env discreet"
    and before: "pending w element v"
    and absent: "oFunction = None \<or> element \<notin> set bucket"
  shows "post (pending w element) (forEach (instantiate env sName oFunction) bucket v)"
proof (cases "oFunction = None")
  case True
  then have "forEach (instantiate env sName oFunction) bucket v = Returns () v"
    by (intro forEach_noop) (simp add: instantiate_undefined)
  with before show ?thesis by simp
next
  case False
  with absent have "element \<notin> set bucket" by simp
  with before show ?thesis
    by (intro post_forEach) (auto intro: instantiate_other_pending [OF fk mk])
qed

lemma bucket_pending_made:
  assumes fk: "factories_keep env discreet" and mk: "methods_keep env discreet"
  shows "pending w element v \<Longrightarrow> element \<in> set bucket \<Longrightarrow>
     forEach (instantiate env sName (Some f)) bucket v = Returns () v' \<Longrightarrow>
     made w element f v'"
proof (induction bucket arbitrary: v)
  case Nil
  then show ?case by simp
next
  case (Cons x bucket)
  from Cons.prems(3) obtain v1 where
    head: "instantiate env sName (Some f) x v = Returns () v1"
    and tail: "forEach (instantiate env sName (Some f)) bucket v1 = Returns () v'"
    by (auto simp: bind_eq_Returns)
  show ?case
  proof (cases "x = element")
    case True
    from instantiate_pending_made [OF fk mk Cons.prems(1), of f sName] head True
    have "made w element f v1" by simp
    from bucket_made [OF fk mk this, of sName "Some f" bucket] tail show ?thesis by simp
  next
    case False
    from instantiate_other_pending [OF fk mk False Cons.prems(1), of sName "Some f"] head
    have "pending w element v1" by simp
    moreover from False Cons.prems(2) have "element \<in> set bucket" by simp
    ultimately show ?thesis using tail by (rule Cons.IH)
  qed
qed

lemma initialize_component_made:
  assumes fk: "factories_keep env discreet" and mk: "methods_keep env discreet"
    and after: "made w element f v"
  shows "post (made w element f) (initialize_component env component v)"
  using after bucket_made [OF fk mk after]
  by (simp add: initialize_component_def Let_def split: option.splits)

lemma initialize_component_pending:
  assumes fk: "factories_keep env discreet" and mk: "methods_keep env discreet"
    and before: "pending w element v"
    and absent: "func component = None \<or>
                 (\<forall>bucket. componentsHash w (name component) = Some bucket \<longrightarrow> element \<notin> set bucket)"
  shows "post (pending w element) (initialize_component env component v)"
proof (cases "componentsHash v (name component)")
  case None
  with before show ?thesis by (simp add: initialize_component_def)
next
  case (Some bucket)
  from before have "componentsHash v = componentsHash w" by (simp add: pending_def)
  with Some absent have "func component = None \<or> element \<notin> set bucket" by auto
  from bucket_pending [OF fk mk before this] Some show ?thesis
    by (simp add: initialize_component_def)
qed

lemma initialize_component_pending_made:
  assumes fk: "factories_keep env discreet" and mk: "methods_keep env discreet"
    and before: "pending w element v"
    and f: "func component = Some f"
    and bucket: "componentsHash w (name component) = Some bucket" "element \<in> set bucket"
    and run: "initialize_component env component v = Returns () v'"
  shows "made w element f v'"
proof -
  from before have "componentsHash v = componentsHash w" by (simp add: pending_def)
  with bucket run f have "forEach (instantiate env (name component) (Some f)) bucket v = Returns () v'"
    by (simp add: initialize_component_def)
  with before bucket(2) show ?thesis by (intro bucket_pending_made [OF fk mk])
qed

lemma pending_refl: "\<not> componentized w element \<Longrightarrow> pending w element w"
  by (simp add: pending_def)

text \<open>An element that is flagged is never handed to a factory again.\<close>

lemma initializeComponents_flagged:
  assumes fk: "factories_keep env discreet" and mk: "methods_keep env discreet"
    and flagged: "componentized v element"
  shows "post (\<lambda>v'. constructions v' element = constructions v element \<and>
                      componentized v' element)
           (initializeComponents env v)"
proof -
  let ?I = "\<lambda>v'. constructions v' element = constructions v element \<and> componentized v' element"
  have inst: "post ?I (instantiate env sName oFunction x u)" if I: "?I u" for sName oFunction x u
  proof (cases "oFunction = None \<or> componentized u x")
    case True
    then have "instantiate env sName oFunction x u = Returns () u"
      by (auto simp: instantiate_undefined instantiate_componentized)
    with I show ?thesis by simp
  next
    case False
    then obtain g where g: "oFunction = Some g" and un: "\<not> componentized u x" by auto
    with I have other: "x \<noteq> element" by auto
    show ?thesis
      unfolding g
      by (rule post_mono [OF instantiate_marks [OF fk mk un]])
         (use other I in \<open>simp add: constructions_def\<close>)
  qed
  have step: "post ?I (initialize_component env c u)" if I: "?I u" for c u
  proof (cases "componentsHash u (name c)")
    case None
    with I show ?thesis by (simp add: initialize_component_def)
  next
    case (Some es)
    have "post ?I (forEach (instantiate env (name c) (func c)) es u)"
      using I by (rule post_forEach) (rule inst)
    with Some show ?thesis by (simp add: initialize_component_def)
  qed
  show ?thesis
    unfolding initializeComponents_def
    by (rule post_forEach [where I = ?I]) (use flagged in simp, rule step)
qed

lemma scan_class_marks:
  "post (\<lambda>v'. constructLog v' = constructLog v \<and> notifying v' = notifying v \<and>
               (\<forall>x. componentized v' x = componentized v x))
     (scan_class element sClass v)"
  by (simp add: scan_class_def componentized_def getAttribute_def Let_def split: option.splits)

lemma scan_element_marks:
  "post (\<lambda>v'. constructLog v' = constructLog v \<and> notifying v' = notifying v \<and>
               (\<forall>x. componentized v' x = componentized v x))
     (scan_element x v)"
proof -
  let ?I = "\<lambda>v'. constructLog v' = constructLog v \<and> notifying v' = notifying v \<and>
                 (\<forall>x. componentized v' x = componentized v x)"
  have "post ?I (scan_class x sClass u)" if "?I u" for sClass u
    using scan_class_marks [of u x sClass] that by (auto intro: post_mono)
  then have "post ?I (forEach (scan_class x) tokens v)" for tokens
    by (intro post_forEach) auto
  then show ?thesis by (simp add: scan_element_def split: option.splits)
qed

lemma scan_marks:
  "post (\<lambda>v'. constructLog v' = constructLog v \<and> (\<forall>x. componentized v' x = componentized v x))
     (scan c v)"
proof -
  let ?I = "\<lambda>v'. constructLog v' = constructLog v \<and> (\<forall>x. componentized v' x = componentized v x)"
  have "post ?I (scan_element x u)" if "?I u" for x u
    using scan_element_marks [of u x] that by (auto intro: post_mono)
  then have "post ?I (forEach scan_element xs v)" for xs
    by (intro post_forEach) auto
  then show ?thesis by (simp add: scan_def Let_def)
qed

lemma checkForNewComponents_flagged:
  assumes fk: "factories_keep env discreet" and mk: "methods_keep env discreet"
    and flagged: "componentized v element"
  shows "post (\<lambda>v'. constructions v' element = constructions v element \<and>
                      componentized v' element)
           (checkForNewComponents env c v)"
proof -
  let ?c = "Some (case c of Some t \<Rightarrow> t | None \<Rightarrow> body v)"
  have "post (\<lambda>v'. constructLog v' = constructLog v \<and>
                    (\<forall>x. componentized v' x = componentized v x)) (scan ?c v)"
    by (rule scan_marks)
  then have "post (\<lambda>v'. constructions v' element = constructions v element \<and>
                         componentized v' element)
               (bind (scan ?c v) (\<lambda>u w'. initializeComponents env w'))"
  proof (rule post_bind)
    fix w1
    assume same: "constructLog w1 = constructLog v \<and>
                  (\<forall>x. componentized w1 x = componentized v x)"
    with flagged have f1: "componentized w1 element" by simp
    from same have c1: "constructions w1 element = constructions v element"
      by (simp add: constructions_def)
    show "post (\<lambda>v'. constructions v' element = constructions v element \<and>
                      componentized v' element) (initializeComponents env w1)"
      using initializeComponents_flagged [OF fk mk f1] by (simp add: c1)
  qed (use flagged in \<open>simp add: constructions_def\<close>)
  then show ?thesis by (simp add: checkForNewComponents_def Let_def)
qed

lemma repeat_flagged:
  assumes fk: "factories_keep env discreet" and mk: "methods_keep env discreet"
  shows "componentized v element \<Longrightarrow>
     post (\<lambda>v'. constructions v' element = constructions v element \<and> componentized v' element)
       (repeat n (checkForNewComponents env c) v)"
proof (induction n arbitrary: v)
  case 0
  then show ?case by simp
next
  case (Suc n)
  let ?Q = "\<lambda>u v'. constructions v' element = constructions u element \<and> componentized v' element"
  have "post (?Q v) (bind (checkForNewComponents env c v)
                       (\<lambda>u w'. repeat n (checkForNewComponents env c) w'))"
    using checkForNewComponents_flagged [OF fk mk Suc.prems, of c]
  proof (rule post_bind)
    fix w1
    assume 1: "?Q v w1"
    then have "post (?Q w1) (repeat n (checkForNewComponents env c) w1)"
      by (intro Suc.IH) simp
    then show "post (?Q v) (repeat n (checkForNewComponents env c) w1)"
      using 1 by (auto intro: post_mono)
  qed simp
  then show ?case by simp
qed

text \<open>No operation of the loader but \<^verbatim>\<open>notifyAll\<close> writes
  \<^verbatim>\<open>api.notifying\<close>.\<close>

lemma initializeComponents_keeps_flag:
  assumes fk: "factories_keep env discreet" and mk: "methods_keep env discreet"
  shows "post (\<lambda>v'. notifying v' = notifying v) (initializeComponents env v)"
proof -
  let ?I = "\<lambda>v'. notifying v' = notifying v"
  have inst: "post ?I (instantiate env sName oFunction x u)" if I: "?I u" for sName oFunction x u
  proof (cases "oFunction = None \<or> componentized u x")
    case True
    then have "instantiate env sName oFunction x u = Returns () u"
      by (auto simp: instantiate_undefined instantiate_componentized)
    with I show ?thesis by simp
  next
    case False
    then obtain g where g: "oFunction = Some g" and un: "\<not> componentized u x" by auto
    show ?thesis
      unfolding g
      by (rule post_mono [OF instantiate_marks [OF fk mk un]]) (use I in simp)
  qed
  have step: "post ?I (initialize_component env c u)" if I: "?I u" for c u
  proof (cases "componentsHash u (name c)")
    case None
    with I show ?thesis by (simp add: initialize_component_def)
  next
    case (Some es)
    have "post ?I (forEach (instantiate env (name c) (func c)) es u)"
      using I by (rule post_forEach) (rule inst)
    with Some show ?thesis by (simp add: initialize_component_def)
  qed
  show ?thesis
    unfolding initializeComponents_def
    by (rule post_forEach [where I = ?I]) (simp, rule step)
qed

lemma scan_keeps_flag: "post (\<lambda>v'. notifying v' = notifying v) (scan c v)"
proof -
  let ?I = "\<lambda>v'. notifying v' = notifying v"
  have "post ?I (scan_element x u)" if "?I u" for x u
    using scan_element_marks [of u x] that by (auto intro: post_mono)
  then have "post ?I (forEach scan_element xs v)" for xs
    by (intro post_forEach) auto
  then show ?thesis by (simp add: scan_def Let_def)
qed

lemma register_keeps_flag:
  "post (\<lambda>v'. notifying v' = notifying v) (register inherited sName oFunction v)"
  by (simp add: register_def)

text \<open>The check on what \<^verbatim>\<open>new\<close> gave can only fail for a function.\<close>

lemma no_api_check_iff_function:
  assumes "js_new env f element w = Returns v w'"
  shows "(\<not> truthy v \<or> typeof v \<noteq> ''object'') \<longleftrightarrow> (\<exists>r. v = Function r)"
  using js_new_Returns [OF assms] by auto

text \<open>When every element a rescan reaches is flagged, the rescan changes nothing.\<close>

lemma rescan_fixed:
  assumes marked: "\<forall>element \<in> set (querySelectorAll w
                       (case ctxt of Some c \<Rightarrow> c | None \<Rightarrow> body w) COMPONENT_PREFIX).
                     componentized w element"
    and buckets: "\<forall>component \<in> set (availableComponents w).
                    \<forall>bucket. componentsHash w (name component) = Some bucket \<longrightarrow>
                      (\<forall>element \<in> set bucket. componentized w element)"
  shows "repeat n (checkForNewComponents env ctxt) w = Returns () w"
proof -
  have "forEach scan_element
          (querySelectorAll w (case ctxt of Some c \<Rightarrow> c | None \<Rightarrow> body w) COMPONENT_PREFIX) w
        = Returns () w"
    using marked by (intro forEach_fixed) (simp add: scan_element_def)
  then have scan: "scan (Some (case ctxt of Some c \<Rightarrow> c | None \<Rightarrow> body w)) w = Returns () w"
    by (simp add: scan_def)
  have "initialize_component env component w = Returns () w"
    if "component \<in> set (availableComponents w)" for component
  proof (cases "componentsHash w (name component)")
    case None
    then show ?thesis by (simp add: initialize_component_def)
  next
    case (Some bucket)
    with buckets that have "\<forall>element \<in> set bucket. componentized w element" by blast
    then have "forEach (instantiate env (name component) (func component)) bucket w = Returns () w"
      by (intro forEach_fixed) (simp add: instantiate_componentized)
    with Some show ?thesis by (simp add: initialize_component_def)
  qed
  then have "initializeComponents env w = Returns () w"
    unfolding initializeComponents_def by (intro forEach_fixed)
  with scan have "checkForNewComponents env ctxt w = Returns () w"
    by (simp add: checkForNewComponents_def)
  then show ?thesis by (rule repeat_fixed)
qed

subsection \<open>A pass over new objects\<close>

lemma settled_steady: "methods_keep env settled \<Longrightarrow> methods_keep env steady"
  unfolding methods_keep_def
proof (intro allI)
  fix g this w
  assume "\<forall>g this w. post (settled w) (invoke env g this w)"
  then have "post (settled w) (invoke env g this w)" by blast
  then show "post (steady w) (invoke env g this w)"
    by (rule post_mono) (simp add: settled_def)
qed

lemma call_init_settled:
  assumes mk: "methods_keep env settled" and run: "call_init env r w = Returns () w'"
  shows "settled w w'"
proof (cases "api_init (heap w r)")
  case None
  with run show ?thesis by (simp add: call_init_def settled_def)
next
  case (Some init)
  have "post (settled w) (invoke env init r w)" using mk by (rule methods_keepD)
  with run Some show ?thesis by (simp add: call_init_def)
qed

lemma create_component_returns:
  assumes fk: "factories_keep env discreet" and fn: "factories_make_new env"
    and mk: "methods_keep env settled"
    and run: "create_component env sName f x v = Returns r w6"
  shows "next_ref v \<le> r" and "r < next_ref w6"
    and "api_context (heap w6 r) = Some x"
    and "\<forall>r0<next_ref v. api_render (heap w6 r0) = api_render (heap v r0) \<and>
                           api_context (heap w6 r0) = api_context (heap v r0)"
    and "\<forall>y. isVisible w6 y = isVisible v y"
proof -
  let ?wa = "setAttribute x ''data-componentized'' ''true'' v"
  let ?w1 = "?wa\<lparr>heap := (heap ?wa)(next_ref ?wa := empty_object),
                 next_ref := Suc (next_ref ?wa),
                 constructLog := constructLog ?wa @ [(f, x)]\<rparr>"
  from run obtain val w2 componentId w3 w4 where
    new: "js_new env f x ?wa = Returns val w2"
    and gen: "generateId w2 = Some (componentId, w3)"
    and asg: "assign_id_context val componentId x w3 = Returns r w4"
    and ini: "call_init env r (w4\<lparr>registeredComponents :=
                (registeredComponents w4)(componentId \<mapsto> r)\<rparr>) = Returns () w6"
    by (auto simp: create_component_def bind_eq_Returns split: option.splits if_splits)
  let ?w5 = "w4\<lparr>registeredComponents := (registeredComponents w4)(componentId \<mapsto> r)\<rparr>"
  from new obtain u where
    con: "construct env f x (next_ref ?wa) ?w1 = Returns u w2"
    and val: "val = (case u of Object r \<Rightarrow> Object r | Function r \<Rightarrow> Function r
                     | _ \<Rightarrow> Object (next_ref ?wa))"
    by (auto simp: js_new_def Let_def bind_eq_Returns)
  have na: "next_ref ?wa = next_ref v" "heap ?wa = heap v"
    by (simp_all add: setAttribute_def)
  have this1: "next_ref ?wa < next_ref ?w1" by simp
  from fn this1 con
  have vis2: "\<forall>y. isVisible w2 y = isVisible ?w1 y"
    and next2: "next_ref ?w1 \<le> next_ref w2"
    and old2: "\<forall>r0<next_ref ?wa. api_render (heap w2 r0) = api_render (heap ?w1 r0) \<and>
                           api_context (heap w2 r0) = api_context (heap ?w1 r0)"
    and ret2: "\<forall>r. u = Object r \<or> u = Function r \<longrightarrow> next_ref ?wa \<le> r \<and> r < next_ref w2"
    unfolding factories_make_new_def by blast+
  from assign_id_context_Returns [OF asg] have
    valr: "val = Object r \<or> val = Function r"
    and w4: "w4 = w3\<lparr>heap := (heap w3)(r := (heap w3 r)\<lparr>api_id := Some componentId,
                                                      api_context := Some x\<rparr>)\<rparr>"
    by auto
  from generateId_Some [OF gen] obtain p where w3: "w3 = w2\<lparr>random_pos := p\<rparr>" by auto
  have bounds: "next_ref v \<le> r \<and> r < next_ref w2"
  proof (cases "u = Object r \<or> u = Function r")
    case True
    with ret2 na show ?thesis by auto
  next
    case False
    with val valr have "r = next_ref ?wa" by (cases u) auto
    with next2 na show ?thesis by simp
  qed
  from call_init_settled [OF mk ini] have st: "steady ?w5 w6" and next6: "next_ref ?w5 \<le> next_ref w6"
    by (simp_all add: settled_def)
  show "next_ref v \<le> r" using bounds by simp
  show "r < next_ref w6" using bounds next6 by (simp add: w4 w3)
  show "api_context (heap w6 r) = Some x"
    using st by (simp add: steady_def w4)
  show "\<forall>r0<next_ref v. api_render (heap w6 r0) = api_render (heap v r0) \<and>
                           api_context (heap w6 r0) = api_context (heap v r0)"
  proof (intro allI impI)
    fix r0 assume r0: "r0 < next_ref v"
    with bounds have ne: "r0 \<noteq> r" by simp
    from st have "api_render (heap w6 r0) = api_render (heap ?w5 r0)"
      "api_context (heap w6 r0) = api_context (heap ?w5 r0)" by (simp_all add: steady_def)
    moreover have "heap ?w5 r0 = heap w2 r0" using ne by (simp add: w4 w3)
    moreover have "api_render (heap w2 r0) = api_render (heap ?w1 r0)"
      "api_context (heap w2 r0) = api_context (heap ?w1 r0)" using old2 r0 na by simp_all
    moreover have "heap ?w1 r0 = heap v r0" using r0 na by simp
    ultimately show "api_render (heap w6 r0) = api_render (heap v r0) \<and>
                     api_context (heap w6 r0) = api_context (heap v r0)" by simp
  qed
  show "\<forall>y. isVisible w6 y = isVisible v y"
  proof
    fix y
    from st have "isVisible w6 y = isVisible ?w5 y" by (simp add: steady_def)
    also have "\<dots> = isVisible w2 y" by (simp add: isVisible_def w4 w3)
    also have "\<dots> = isVisible ?w1 y" using vis2 by simp
    also have "\<dots> = isVisible v y" by (simp add: isVisible_def setAttribute_def Let_def)
    finally show "isVisible w6 y = isVisible v y" .
  qed
qed

lemma instantiate_returns:
  assumes fk: "factories_keep env discreet" and fn: "factories_make_new env"
    and mk: "methods_keep env settled"
    and unflagged: "\<not> componentized v x"
    and run: "instantiate env sName (Some f) x v = Returns () v'"
  shows "\<exists>r. instantiated_as x r v v'"
proof -
  note mk' = steady_discreet [OF settled_steady [OF mk]]
  from run unflagged obtain r w6 where
    created: "create_component env sName f x v = Returns r w6"
    and rest: "render_or_defer env r x w6 = Returns () v'"
    by (auto simp: instantiate_def bind_eq_Returns)
  note c = create_component_returns [OF fk fn mk created]
  note table = create_component_records_new_id [OF fk mk' created]
  from create_component_renders_nothing
    [OF fk mk', where w = v and sName = sName and f = f and x = x] created
  have log6: "renderLog w6 = renderLog v"
    and q6: "registeredForNotifications w6 = registeredForNotifications v" by simp_all
  have vis6: "isVisible w6 x = isVisible v x" using c(5) by simp
  have "instantiated_as x r v v'"
  proof (cases "api_render (heap w6 r)")
    case None
    with rest have "v' = w6" by (simp add: render_or_defer_def)
    with None show ?thesis
      unfolding instantiated_as_def
      using c table log6 q6 by simp
  next
    case (Some g)
    show ?thesis
    proof (cases "isVisible w6 x")
      case False
      with rest Some
      have v': "v' = w6\<lparr>registeredForNotifications := registeredForNotifications w6 @ [r]\<rparr>"
        by (simp add: render_or_defer_def)
      have same: "heap v' = heap w6" "next_ref v' = next_ref w6"
        "registeredComponents v' = registeredComponents w6" "renderLog v' = renderLog w6"
        "registeredForNotifications v' = registeredForNotifications w6 @ [r]"
        "\<forall>y. isVisible v' y = isVisible w6 y"
        by (simp_all add: v' isVisible_def)
      show ?thesis
        unfolding instantiated_as_def
        using c table log6 q6 vis6 False Some same by simp
    next
      case True
      let ?w7 = "w6\<lparr>renderLog := renderLog w6 @ [r]\<rparr>"
      have "post (settled ?w7) (invoke env g r ?w7)" using mk by (rule methods_keepD)
      with rest Some True have "settled ?w7 v'"
        by (simp add: render_or_defer_def call_render_def)
      then have st: "steady ?w7 v'" and nx: "next_ref w6 \<le> next_ref v'"
        by (simp_all add: settled_def)
      from st have same: "\<forall>r0. api_render (heap v' r0) = api_render (heap w6 r0)"
        "\<forall>r0. api_context (heap v' r0) = api_context (heap w6 r0)"
        "\<forall>y. isVisible v' y = isVisible w6 y"
        "registeredComponents v' = registeredComponents w6"
        "registeredForNotifications v' = registeredForNotifications w6"
        "renderLog v' = renderLog w6 @ [r]"
        by (simp_all add: steady_def discreet_def isVisible_def)
      have "r < next_ref v'" using c(2) nx by simp
      then show ?thesis
        unfolding instantiated_as_def
        using c table log6 q6 vis6 True Some same by simp
    qed
  qed
  then show ?thesis ..
qed

lemma forEach_Returns_inv:
  assumes "forEach f xs w = Returns () w'" and "I w"
    and "\<And>x v v'. I v \<Longrightarrow> f x v = Returns () v' \<Longrightarrow> I v'"
  shows "I w'"
  using assms
proof (induction xs arbitrary: w)
  case Nil
  then show ?case by simp
next
  case (Cons x xs)
  from Cons.prems(1) obtain w1 where
    head: "f x w = Returns () w1" and tail: "forEach f xs w1 = Returns () w'"
    by (auto simp: bind_eq_Returns)
  from Cons.prems(2) head have "I w1" by (rule Cons.prems(3))
  with tail show ?case using Cons.prems(3) by (intro Cons.IH [of w1]) auto
qed

lemma in_pass_start:
  assumes "allocated w" and "next_ref w \<le> r"
  shows "in_pass w r w"
proof -
  from assms have "r \<notin> ran (registeredComponents w)" "r \<notin> set (registeredForNotifications w)"
    by (auto simp: allocated_def)
  with assms show ?thesis by (simp add: in_pass_def accounted_def)
qed

lemma in_pass_step:
  assumes new: "next_ref w \<le> r" and inv: "in_pass w r v"
    and step: "instantiated_as x r' v v'"
  shows "in_pass w r v'"
proof -
  from inv have nv: "next_ref w \<le> next_ref v" and al: "allocated v"
    and vis: "\<forall>y. isVisible v y = isVisible w y"
    and acc: "accounted w r v"
    by (simp_all add: in_pass_def)
  from inv obtain more where more: "registeredForNotifications v = registeredForNotifications w @ more"
    by (auto simp: in_pass_def)
  from step have n1: "next_ref v \<le> r'" and n2: "r' < next_ref v'"
    and ctxt: "api_context (heap v' r') = Some x"
    and old: "\<forall>r0<next_ref v. api_render (heap v' r0) = api_render (heap v r0) \<and>
                                api_context (heap v' r0) = api_context (heap v r0)"
    and vis': "\<forall>y. isVisible v' y = isVisible v y"
    by (simp_all add: instantiated_as_def)
  from step obtain componentId where "registeredComponents v componentId = None"
    "registeredComponents v' = (registeredComponents v)(componentId \<mapsto> r')"
    by (auto simp: instantiated_as_def)
  then have ran': "ran (registeredComponents v') = insert r' (ran (registeredComponents v))"
    by simp
  from step obtain lq ll where
    q': "registeredForNotifications v' = registeredForNotifications v @ lq"
    and l': "renderLog v' = renderLog v @ ll"
    and kinds: "(lq = [] \<and> ll = [] \<and> api_render (heap v' r') = None) \<or>
                (lq = [] \<and> ll = [r'] \<and> api_render (heap v' r') \<noteq> None \<and> isVisible v x) \<or>
                (lq = [r'] \<and> ll = [] \<and> api_render (heap v' r') \<noteq> None \<and> \<not> isVisible v x)"
    by (auto simp: instantiated_as_def split: option.splits if_splits)
  from kinds have sub: "set lq \<subseteq> {r'}" "set ll \<subseteq> {r'}" by auto
  have al': "allocated v'"
    unfolding allocated_def
  proof (intro conjI ballI)
    fix q assume "q \<in> set (registeredForNotifications v')"
    with q' sub have "q \<in> set (registeredForNotifications v) \<or> q = r'" by auto
    with al n1 n2 show "q < next_ref v'" by (auto simp: allocated_def)
  next
    fix q assume "q \<in> ran (registeredComponents v')"
    with ran' have "q \<in> ran (registeredComponents v) \<or> q = r'" by auto
    with al n1 n2 show "q < next_ref v'" by (auto simp: allocated_def)
  qed
  have acc': "accounted w r v'"
  proof (cases "r = r'")
    case True
    with n1 al have out: "r \<notin> ran (registeredComponents v)" "r \<notin> set (registeredForNotifications v)"
      by (auto simp: allocated_def)
    with acc have c0: "count_list (registeredForNotifications v) r = 0"
      "count_list (renderLog v) r = count_list (renderLog w) r"
      by (simp_all add: accounted_def)
    have reg: "r \<in> ran (registeredComponents v')" using ran' True by simp
    show ?thesis
    proof (cases "api_render (heap v' r)")
      case None
      with reg show ?thesis by (simp add: accounted_def)
    next
      case (Some g)
      have vx: "isVisible v' x = isVisible v x" using vis' by simp
      from Some kinds True have
        "(lq = [] \<and> ll = [r] \<and> isVisible v x) \<or> (lq = [r] \<and> ll = [] \<and> \<not> isVisible v x)"
        by auto
      then show ?thesis
        using reg Some ctxt True c0 vx by (auto simp: accounted_def q' l')
    qed
  next
    case False
    with sub have no: "r \<notin> set lq" "r \<notin> set ll" by auto
    then have counts: "count_list (registeredForNotifications v') r =
                         count_list (registeredForNotifications v) r"
      "count_list (renderLog v') r = count_list (renderLog v) r"
      by (simp_all add: q' l')
    have reg: "r \<in> ran (registeredComponents v') \<longleftrightarrow> r \<in> ran (registeredComponents v)"
      using ran' False by simp
    show ?thesis
    proof (cases "r \<in> ran (registeredComponents v)")
      case False
      with acc reg counts show ?thesis by (simp add: accounted_def)
    next
      case True
      with al have "r < next_ref v" by (simp add: allocated_def)
      with old have same: "api_render (heap v' r) = api_render (heap v r)"
        "api_context (heap v' r) = api_context (heap v r)" by simp_all
      have "accounted w r v' = accounted w r v"
        unfolding accounted_def by (simp add: reg counts same vis' cong: option.case_cong)
      with acc show ?thesis by simp
    qed
  qed
  from nv n1 n2 have "next_ref w \<le> next_ref v'" by simp
  moreover from vis vis' have "\<forall>y. isVisible v' y = isVisible w y" by simp
  moreover from more q' have "\<exists>more. registeredForNotifications v' =
                                       registeredForNotifications w @ more" by simp
  ultimately show ?thesis using al' acc' by (simp add: in_pass_def)
qed

lemma instantiate_in_pass:
  assumes fk: "factories_keep env discreet" and fn: "factories_make_new env"
    and mk: "methods_keep env settled"
    and new: "next_ref w \<le> r" and inv: "in_pass w r v"
    and run: "instantiate env sName oFunction x v = Returns () v'"
  shows "in_pass w r v'"
proof (cases "oFunction = None \<or> componentized v x")
  case True
  then have "instantiate env sName oFunction x v = Returns () v"
    by (auto simp: instantiate_undefined instantiate_componentized)
  with run inv show ?thesis by simp
next
  case False
  then obtain f where f: "oFunction = Some f" and unflagged: "\<not> componentized v x" by auto
  from instantiate_returns [OF fk fn mk unflagged run [unfolded f]]
  obtain r' where "instantiated_as x r' v v'" ..
  with new inv show ?thesis by (rule in_pass_step)
qed

lemma initialize_component_in_pass:
  assumes fk: "factories_keep env discreet" and fn: "factories_make_new env"
    and mk: "methods_keep env settled"
    and new: "next_ref w \<le> r" and inv: "in_pass w r v"
    and run: "initialize_component env component v = Returns () v'"
  shows "in_pass w r v'"
proof (cases "componentsHash v (name component)")
  case None
  with run inv show ?thesis by (simp add: initialize_component_def)
next
  case (Some bucket)
  with run have "forEach (instantiate env (name component) (func component)) bucket v =
                   Returns () v'"
    by (simp add: initialize_component_def)
  then show ?thesis
    using inv by (rule forEach_Returns_inv) (rule instantiate_in_pass [OF fk fn mk new])
qed

lemma initializeComponents_in_pass:
  assumes fk: "factories_keep env discreet" and fn: "factories_make_new env"
    and mk: "methods_keep env settled"
    and alloc: "allocated w" and new: "next_ref w \<le> r"
    and run: "initializeComponents env w = Returns () w1"
  shows "in_pass w r w1"
proof -
  from run have "forEach (initialize_component env) (availableComponents w) w = Returns () w1"
    by (simp add: initializeComponents_def)
  then show ?thesis
    using in_pass_start [OF alloc new]
    by (rule forEach_Returns_inv) (rule initialize_component_in_pass [OF fk fn mk new])
qed

lemma instantiate_next_ref:
  assumes fk: "factories_keep env discreet" and fn: "factories_make_new env"
    and mk: "methods_keep env settled"
    and run: "instantiate env sName oFunction x v = Returns () v'"
  shows "next_ref v \<le> next_ref v'"
proof (cases "oFunction = None \<or> componentized v x")
  case True
  then have "instantiate env sName oFunction x v = Returns () v"
    by (auto simp: instantiate_undefined instantiate_componentized)
  with run show ?thesis by simp
next
  case False
  then obtain f where f: "oFunction = Some f" and unflagged: "\<not> componentized v x" by auto
  from instantiate_returns [OF fk fn mk unflagged run [unfolded f]]
  obtain r' where "instantiated_as x r' v v'" ..
  then show ?thesis by (simp add: instantiated_as_def)
qed

lemma instantiate_has_instance:
  assumes fk: "factories_keep env discreet" and fn: "factories_make_new env"
    and mk: "methods_keep env settled"
    and before: "has_instance w element v"
    and run: "instantiate env sName oFunction x v = Returns () v'"
  shows "has_instance w element v'"
proof (cases "oFunction = None \<or> componentized v x")
  case True
  then have "instantiate env sName oFunction x v = Returns () v"
    by (auto simp: instantiate_undefined instantiate_componentized)
  with run before show ?thesis by simp
next
  case False
  then obtain f where f: "oFunction = Some f" and unflagged: "\<not> componentized v x" by auto
  from instantiate_returns [OF fk fn mk unflagged run [unfolded f]]
  obtain r' where step: "instantiated_as x r' v v'" ..
  from before obtain r where r: "next_ref w \<le> r" "r < next_ref v"
    "r \<in> ran (registeredComponents v)" "api_context (heap v r) = Some element"
    by (auto simp: has_instance_def)
  from step have n: "next_ref v \<le> r'" "r' < next_ref v'"
    and old: "\<forall>r0<next_ref v. api_render (heap v' r0) = api_render (heap v r0) \<and>
                                api_context (heap v' r0) = api_context (heap v r0)"
    by (simp_all add: instantiated_as_def)
  from step obtain componentId where "registeredComponents v componentId = None"
    "registeredComponents v' = (registeredComponents v)(componentId \<mapsto> r')"
    by (auto simp: instantiated_as_def)
  then have "ran (registeredComponents v') = insert r' (ran (registeredComponents v))"
    by simp
  with r n old have "next_ref w \<le> r \<and> r < next_ref v' \<and> r \<in> ran (registeredComponents v') \<and>
                     api_context (heap v' r) = Some element" by simp
  then show ?thesis unfolding has_instance_def ..
qed

lemma instantiate_makes_instance:
  assumes fk: "factories_keep env discreet" and fn: "factories_make_new env"
    and mk: "methods_keep env settled"
    and unflagged: "\<not> componentized v element" and later: "next_ref w \<le> next_ref v"
    and run: "instantiate env sName (Some f) element v = Returns () v'"
  shows "has_instance w element v'"
proof -
  from instantiate_returns [OF fk fn mk unflagged run]
  obtain r where step: "instantiated_as element r v v'" ..
  from step obtain componentId where
    "registeredComponents v' = (registeredComponents v)(componentId \<mapsto> r)"
    by (auto simp: instantiated_as_def)
  then have "registeredComponents v' componentId = Some r" by simp
  then have "r \<in> ran (registeredComponents v')" by (rule ranI)
  with step later have "next_ref w \<le> r \<and> r < next_ref v' \<and> r \<in> ran (registeredComponents v') \<and>
                        api_context (heap v' r) = Some element"
    by (simp add: instantiated_as_def)
  then show ?thesis unfolding has_instance_def ..
qed

lemma bucket_makes_instance:
  assumes fk: "factories_keep env discreet" and fn: "factories_make_new env"
    and mk: "methods_keep env settled"
  shows "pending w element v \<Longrightarrow> next_ref w \<le> next_ref v \<Longrightarrow> element \<in> set bucket \<Longrightarrow>
     forEach (instantiate env sName (Some f)) bucket v = Returns () v' \<Longrightarrow>
     has_instance w element v'"
proof (induction bucket arbitrary: v)
  case Nil
  then show ?case by simp
next
  case (Cons x bucket)
  note mk' = steady_discreet [OF settled_steady [OF mk]]
  from Cons.prems(4) obtain v1 where
    head: "instantiate env sName (Some f) x v = Returns () v1"
    and tail: "forEach (instantiate env sName (Some f)) bucket v1 = Returns () v'"
    by (auto simp: bind_eq_Returns)
  show ?case
  proof (cases "x = element")
    case True
    from Cons.prems(1) have "\<not> componentized v element" by (simp add: pending_def)
    from instantiate_makes_instance [OF fk fn mk this Cons.prems(2) head [unfolded True]]
    have "has_instance w element v1" .
    with tail show ?thesis
      by (rule forEach_Returns_inv) (rule instantiate_has_instance [OF fk fn mk])
  next
    case False
    from instantiate_other_pending [OF fk mk' False Cons.prems(1), of sName "Some f"] head
    have "pending w element v1" by simp
    moreover from instantiate_next_ref [OF fk fn mk head] Cons.prems(2)
    have "next_ref w \<le> next_ref v1" by simp
    moreover from False Cons.prems(3) have "element \<in> set bucket" by simp
    ultimately show ?thesis using tail by (rule Cons.IH)
  qed
qed

lemma initialize_component_next_ref:
  assumes fk: "factories_keep env discreet" and fn: "factories_make_new env"
    and mk: "methods_keep env settled"
    and before: "next_ref w \<le> next_ref v"
    and run: "initialize_component env component v = Returns () v'"
  shows "next_ref w \<le> next_ref v'"
proof (cases "componentsHash v (name component)")
  case None
  with run before show ?thesis by (simp add: initialize_component_def)
next
  case (Some bucket)
  with run have "forEach (instantiate env (name component) (func component)) bucket v =
                   Returns () v'"
    by (simp add: initialize_component_def)
  then show ?thesis
    using before
  proof (rule forEach_Returns_inv)
    fix x u u'
    assume "next_ref w \<le> next_ref u"
      "instantiate env (name component) (func component) x u = Returns () u'"
    with instantiate_next_ref [OF fk fn mk, of "name component" "func component" x u u']
    show "next_ref w \<le> next_ref u'" by simp
  qed
qed

lemma initialize_component_has_instance:
  assumes fk: "factories_keep env discreet" and fn: "factories_make_new env"
    and mk: "methods_keep env settled"
    and before: "has_instance w element v"
    and run: "initialize_component env component v = Returns () v'"
  shows "has_instance w element v'"
proof (cases "componentsHash v (name component)")
  case None
  with run before show ?thesis by (simp add: initialize_component_def)
next
  case (Some bucket)
  with run have "forEach (instantiate env (name component) (func component)) bucket v =
                   Returns () v'"
    by (simp add: initialize_component_def)
  then show ?thesis
    using before by (rule forEach_Returns_inv) (rule instantiate_has_instance [OF fk fn mk])
qed

text \<open>A pass that returns has made an instance for every element that was not flagged
  and is in the bucket of an available component that has a factory.\<close>

lemma element_gets_instance:
  assumes fk: "factories_keep env discreet" and fn: "factories_make_new env"
    and mk: "methods_keep env settled"
    and unflagged: "\<not> componentized w element"
    and order: "availableComponents w = earlier @ component # later"
    and f: "func component = Some f"
    and bucket: "componentsHash w (name component) = Some bucket" "element \<in> set bucket"
    and first: "\<forall>c \<in> set earlier. func c = None \<or>
                 (\<forall>es. componentsHash w (name c) = Some es \<longrightarrow> element \<notin> set es)"
    and run: "initializeComponents env w = Returns () w1"
  shows "\<exists>r. next_ref w \<le> r \<and> r \<in> ran (registeredComponents w1) \<and>
             api_context (heap w1 r) = Some element"
proof -
  note mk' = steady_discreet [OF settled_steady [OF mk]]
  from run order obtain v1 v2 where
    r1: "forEach (initialize_component env) earlier w = Returns () v1"
    and r2: "initialize_component env component v1 = Returns () v2"
    and r3: "forEach (initialize_component env) later v2 = Returns () w1"
    by (auto simp: initializeComponents_def forEach_append bind_eq_Returns)
  have "post (pending w element) (forEach (initialize_component env) earlier w)"
    using pending_refl [OF unflagged] first
    by (intro post_forEach) (auto intro!: initialize_component_pending [OF fk mk'])
  with r1 have p1: "pending w element v1" by simp
  have n1: "next_ref w \<le> next_ref v1"
    using r1 by (rule forEach_Returns_inv) (simp, rule initialize_component_next_ref [OF fk fn mk])
  from p1 have "componentsHash v1 = componentsHash w" by (simp add: pending_def)
  with bucket r2 f
  have "forEach (instantiate env (name component) (Some f)) bucket v1 = Returns () v2"
    by (simp add: initialize_component_def)
  from bucket_makes_instance [OF fk fn mk p1 n1 bucket(2) this]
  have "has_instance w element v2" .
  with r3 have "has_instance w element w1"
    by (rule forEach_Returns_inv) (rule initialize_component_has_instance [OF fk fn mk])
  then show ?thesis by (auto simp: has_instance_def)
qed

subsection \<open>Class tokens\<close>

text \<open>A token that starts with the prefix gives the rest of the token as the name.\<close>

lemma indexOf_from_prefix: "indexOf_from (sub @ s) sub i = int i"
proof (cases "sub @ s")
  case Nil
  then show ?thesis by simp
next
  case (Cons a list)
  have "take (length sub) (sub @ s) = sub" by simp
  then show ?thesis unfolding Cons by simp
qed

lemma scan_class_prefixed:
  "scan_class element (COMPONENT_PREFIX @ sName) w =
     (case componentsHash w sName of
        Some bucket \<Rightarrow>
          Returns () (w\<lparr>componentsHash := (componentsHash w)(sName \<mapsto> bucket @ [element])\<rparr>)
      | None \<Rightarrow>
          if sName \<in> set (object_names w) then Throws TypeError w
          else Returns () (w\<lparr>componentsHash := (componentsHash w)(sName \<mapsto> [element])\<rparr>))"
  by (simp add: scan_class_def indexOf_def indexOf_from_prefix slice_def Let_def)

subsection \<open>Registration\<close>

text \<open>\<^verbatim>\<open>register\<close> throws exactly when the array has a property of that name,
  and a name that is not a number, not \<^verbatim>\<open>length\<close> and not inherited is never
  such a property, whether or not a component of that name is in the table.\<close>

lemma register_throws_iff:
  "(\<exists>e w'. register inherited sName oFunction w = Throws e w') \<longleftrightarrow>
     array_has_property inherited (availableComponents w) sName"
  by (simp add: register_def)

lemma register_ordinary_name:
  assumes "sName \<notin> range decimal" and "sName \<noteq> ''length''" and "sName \<notin> set inherited"
  shows "register inherited sName oFunction w =
           Returns () (w\<lparr>availableComponents :=
                           availableComponents w @ [\<lparr>name = sName, func = oFunction\<rparr>]\<rparr>)"
  using assms by (auto simp: register_def array_has_property_def)

subsection \<open>Merging the knob's settings\<close>

lemma fold_update_map_of:
  "map_of (fold (\<lambda>(key, v) out. AList.update key v out) kvs out) = map_of out ++ map_of (rev kvs)"
proof (induction kvs arbitrary: out)
  case Nil
  then show ?case by simp
next
  case (Cons kv kvs)
  obtain key v where kv: "kv = (key, v)" by (cases kv)
  show ?case
    by (simp add: kv Cons.IH update_conv' map_add_upd_left [symmetric] del: map_add_upd_left)
       (simp add: map_add_assoc [symmetric] fun_eq_iff map_add_def split: option.splits)
qed

lemma fold_set_property:
  "''__proto__'' \<notin> fst ` set kvs \<Longrightarrow>
   fold (\<lambda>(key, v) out. set_property key v out) kvs out =
     out\<lparr>own := fold (\<lambda>(key, v) out. AList.update key v out) kvs (own out)\<rparr>"
proof (induction kvs arbitrary: out)
  case Nil
  then show ?case by simp
next
  case (Cons kv kvs)
  obtain key v where kv: "kv = (key, v)" by (cases kv)
  from Cons.prems kv have key: "key \<noteq> ''__proto__''" and rest: "''__proto__'' \<notin> fst ` set kvs"
    by auto
  have head: "set_property key v out = out\<lparr>own := AList.update key v (own out)\<rparr>"
    using key by (simp add: set_property_def)
  show ?case by (simp add: kv head Cons.IH [OF rest])
qed

text \<open>In the merged settings a value of the markup wins over the default. (A key
  \<^verbatim>\<open>__proto__\<close> of the markup is not merged: it replaces the prototype.)\<close>

lemma extend_defaults_then_markup:
  assumes "''__proto__'' \<notin> fst ` set markup"
  shows "map_of (own (extend out [JObj defaults, JObj markup])) =
           map_of (own out) ++ map_of (rev defaults) ++ map_of (rev markup)"
    and "proto (extend out [JObj defaults, JObj markup]) = proto out"
proof -
  have "''__proto__'' \<notin> fst ` set defaults" by (simp add: defaults_def)
  with assms show
    "map_of (own (extend out [JObj defaults, JObj markup])) =
           map_of (own out) ++ map_of (rev defaults) ++ map_of (rev markup)"
    "proto (extend out [JObj defaults, JObj markup]) = proto out"
    by (simp_all add: extend_def fold_set_property fold_update_map_of)
qed

lemma knob_init_parse_error:
  "JSON_parse (to_text (case a of Some s \<Rightarrow> if s \<noteq> [] then Markup s else EmptyObject
                        | None \<Rightarrow> EmptyObject)) = Inl e \<Longrightarrow>
   knob_init JSON_parse (Some c) a k = Inl (e, k\<lparr>ctx := Some c\<rparr>)"
  by (simp add: knob_init_def)

subsection \<open>The example worlds\<close>

lemmas page_defs = hidden_page_def created_page_def queued_page_def shown_page_def
  blocked_page_def widget_page_def fresh_world_def plain_element_def

lemmas marker_defs = two_marker_page_def scanned_page_def instantiated_page_def
  fresh_world_def plain_element_def

lemma widget_env_factories: "factories_keep widget_env discreet"
  by (simp add: factories_keep_def widget_env_def discreet_def componentized_def getAttribute_def)

lemma widget_env_methods: "methods_keep widget_env steady"
  by (simp add: methods_keep_def widget_env_def)

lemma failing_env_methods: "methods_keep failing_env flag_and_queue_kept"
  by (simp add: methods_keep_def failing_env_def flag_and_queue_kept_def)

lemma shown_fails:
  "notifyAll failing_env shown_page = Throws (Thrown ''render failed'') blocked_page"
  by (simp add: notifyAll_def call_render_def failing_env_def isVisible_def page_defs)

lemma two_marker_scanned: "scan None two_marker_page = Returns () scanned_page"
  by (simp add: scan_def querySelectorAll_def scan_element_def scan_class_def indexOf_def
        slice_def COMPONENT_PREFIX_def marker_defs es5_object_names_def componentized_def
        getAttribute_def Let_def)

lemma scanned_instantiated:
  "initializeComponents widget_env scanned_page = Returns () instantiated_page"
  by (simp add: initializeComponents_def initialize_component_def instantiate_def
        create_component_def js_new_def widget_env_def setAttribute_def
        generateId_first assign_id_context_def call_init_def render_or_defer_def
        call_render_def isVisible_def componentized_def getAttribute_def
        marker_defs empty_object_def decimal_digit digit_def Let_def)

lemmas pair_defs = pair_page_def pair_scanned_def pair_queued_def pair_shown_def
  pair_rendered_def pair_blocked_def fresh_world_def plain_element_def

lemmas shared_defs = shared_scanned_def shared_queued_def shared_shown_def shared_rendered_def
  pair_defs

lemma widget_env_flag: "methods_keep widget_env flag_kept"
  by (simp add: methods_keep_def widget_env_def flag_kept_def)

lemma widget_env_new: "factories_make_new widget_env"
  by (simp add: factories_make_new_def widget_env_def isVisible_def)

lemma widget_env_settled: "methods_keep widget_env settled"
  by (simp add: methods_keep_def widget_env_def settled_def)

lemma pair_scan: "scan None pair_page = Returns () pair_scanned"
  by (simp add: scan_def querySelectorAll_def scan_element_def scan_class_def indexOf_def
        slice_def COMPONENT_PREFIX_def pair_defs es5_object_names_def componentized_def
        getAttribute_def Let_def)

lemma pair_pass: "initializeComponents widget_env pair_scanned = Returns () pair_queued"
  by (simp add: initializeComponents_def initialize_component_def instantiate_def
        create_component_def js_new_def widget_env_def setAttribute_def
        generateId_first assign_id_context_def call_init_def render_or_defer_def
        call_render_def isVisible_def componentized_def getAttribute_def
        pair_defs empty_object_def decimal_digit digit_def Let_def)

lemma pair_notified: "notifyAll widget_env pair_shown = Returns () pair_rendered"
  by (simp add: notifyAll_def call_render_def widget_env_def isVisible_def splice1_def pair_defs)

lemma pair_notified_in_sequence:
  "notifyAll (in_sequence widget_env widget_env) pair_shown = Returns () pair_rendered"
  by (simp add: notifyAll_def call_render_def in_sequence_def widget_env_def isVisible_def
        splice1_def pair_defs)

lemma pair_rendered_notified: "notifyAll widget_env pair_rendered = Returns () pair_rendered"
  by (simp add: notifyAll_def pair_defs)

lemma shared_pass: "initializeComponents shared_env shared_scanned = Returns () shared_queued"
  by (simp add: initializeComponents_def initialize_component_def instantiate_def
        create_component_def js_new_def shared_env_def setAttribute_def
        generateId_first assign_id_context_def call_init_def render_or_defer_def
        call_render_def isVisible_def componentized_def getAttribute_def
        shared_defs empty_object_def decimal_digit digit_def Let_def fun_eq_iff)

lemma shared_notified: "notifyAll shared_env shared_shown = Returns () shared_rendered"
  by (simp add: notifyAll_def call_render_def shared_env_def isVisible_def splice1_def shared_defs)

lemma faulty_pass: "initializeComponents faulty_env pair_scanned = Returns () pair_queued"
  by (simp add: initializeComponents_def initialize_component_def instantiate_def
        create_component_def js_new_def faulty_env_def widget_env_def setAttribute_def
        generateId_first assign_id_context_def call_init_def render_or_defer_def
        call_render_def isVisible_def componentized_def getAttribute_def
        pair_defs empty_object_def decimal_digit digit_def Let_def)

lemma faulty_notified:
  "notifyAll faulty_env pair_shown = Throws (Thrown ''render failed'') pair_blocked"
  by (simp add: notifyAll_def call_render_def faulty_env_def isVisible_def shared_defs)

lemma faulty_blocked: "notifyAll faulty_env pair_blocked = Returns () pair_blocked"
  by (simp add: notifyAll_def shared_defs)

subsection \<open>The claims\<close>

text \<open>
  Claim C1 as it is stated does not hold: two runs in which an instance whose element is
  hidden at initialization is not rendered exactly once by the first
  \<^verbatim>\<open>notifyAll\<close> after its element has been shown. In
  the first the factory returns the same object for the elements \<open>4\<close> and \<open>6\<close>:
  \<^verbatim>\<open>initializeComponents\<close> appends the object to the queue twice, and
  \<^verbatim>\<open>notifyAll\<close> renders it twice. In the second the \<^verbatim>\<open>render\<close> of
  instance \<open>0\<close> throws: \<^verbatim>\<open>notifyAll\<close> ends with the error before it reaches
  instance \<open>1\<close>, \<^verbatim>\<open>api.notifying\<close> stays set and the next
  \<^verbatim>\<open>notifyAll\<close> does nothing, so instance \<open>1\<close> is not rendered and stays in
  the queue although its element is visible.
\<close>

theorem hidden_instance_not_rendered_once:
  "initializeComponents shared_env shared_scanned = Returns () shared_queued \<and>
   api_context (heap shared_queued 0) = Some 6 \<and>
   \<not> isVisible shared_scanned 6 \<and>
   renderLog shared_queued = [] \<and>
   registeredForNotifications shared_queued = [0, 0] \<and>
   isVisible shared_shown 6 \<and>
   notifyAll shared_env shared_shown = Returns () shared_rendered \<and>
   count_list (renderLog shared_rendered) 0 = 2 \<and>
   initializeComponents faulty_env pair_scanned = Returns () pair_queued \<and>
   api_context (heap pair_queued 1) = Some 6 \<and>
   \<not> isVisible pair_scanned 6 \<and>
   isVisible pair_shown 6 \<and>
   notifyAll faulty_env pair_shown = Throws (Thrown ''render failed'') pair_blocked \<and>
   notifyAll faulty_env pair_blocked = Returns () pair_blocked \<and>
   count_list (renderLog pair_blocked) 1 = 0 \<and>
   1 \<in> set (registeredForNotifications pair_blocked)"
  by (simp add: shared_pass shared_notified faulty_pass faulty_notified faulty_blocked)
     (simp add: isVisible_def shared_defs)

text \<open>
  Claim C1, for instances that are new objects and for calls that return. Let the
  factories return new objects and leave the objects made before and the visibility of
  the elements alone (\<open>factories_make_new\<close>), and let the code of the components
  leave the loader's state alone, the methods also the visibility of the elements and
  the \<^verbatim>\<open>render\<close> methods and contexts of the objects. Let a pass of
  \<^verbatim>\<open>initializeComponents\<close> start in a world in which every object the loader
  holds has been made, and let it return. Then for every instance \<open>r\<close> of the pass,
  that is, every object that was not made before the pass and is in the table of
  instances after it, that has a \<^verbatim>\<open>render\<close> method and whose element is not
  visible: the pass has not invoked \<^verbatim>\<open>render\<close> on \<open>r\<close>, and it has
  appended \<open>r\<close> to the queue, in which \<open>r\<close> was not, exactly once. Let \<open>r\<close>
  then be as the pass left it and as often in the queue, whatever else has changed, let
  its element be visible and no notification be in progress. Then the first
  \<^verbatim>\<open>notifyAll\<close> that returns has invoked \<^verbatim>\<open>render\<close> on \<open>r\<close> exactly
  once and \<open>r\<close> is no longer in the queue, and a second \<^verbatim>\<open>notifyAll\<close> that
  returns does not invoke \<^verbatim>\<open>render\<close> on \<open>r\<close> again. (By
  \<open>element_gets_instance\<close> the pass has made such an instance for every element that
  was not flagged and is in the bucket of an available component with a factory.)
\<close>

theorem hidden_instance_rendered_once_on_notify:
  assumes fk: "factories_keep env discreet" and fn: "factories_make_new env"
    and mk: "methods_keep env settled"
    and alloc: "allocated w"
    and pass: "initializeComponents env w = Returns () w1"
    and new: "next_ref w \<le> r"
    and recorded: "r \<in> ran (registeredComponents w1)"
    and render: "api_render (heap w1 r) = Some g"
    and element: "api_context (heap w1 r) = Some element"
    and hidden: "\<not> isVisible w element"
    and kept: "heap w2 r = heap w1 r"
      "count_list (registeredForNotifications w2) r = count_list (registeredForNotifications w1) r"
    and shown: "isVisible w2 element"
    and idle: "\<not> notifying w2"
    and first: "notifyAll env w2 = Returns () w3"
    and second: "notifyAll env w3 = Returns () w4"
  shows "count_list (renderLog w1) r = count_list (renderLog w) r \<and>
         r \<notin> set (registeredForNotifications w) \<and>
         (\<exists>more. registeredForNotifications w1 = registeredForNotifications w @ more \<and>
                  count_list more r = 1) \<and>
         count_list (renderLog w3) r = count_list (renderLog w2) r + 1 \<and>
         r \<notin> set (registeredForNotifications w3) \<and>
         count_list (renderLog w4) r = count_list (renderLog w3) r"
proof -
  note ms = settled_steady [OF mk]
  from initializeComponents_in_pass [OF fk fn mk alloc new pass]
  have vis: "\<forall>y. isVisible w1 y = isVisible w y" and acc: "accounted w r w1"
    by (simp_all add: in_pass_def)
  from initializeComponents_in_pass [OF fk fn mk alloc new pass]
  obtain more where more: "registeredForNotifications w1 = registeredForNotifications w @ more"
    by (auto simp: in_pass_def)
  from hidden vis have "\<not> isVisible w1 element" by simp
  with acc recorded render element
  have q1: "count_list (registeredForNotifications w1) r = 1"
    and log1: "count_list (renderLog w1) r = count_list (renderLog w) r"
    by (simp_all add: accounted_def)
  from alloc new have out: "r \<notin> set (registeredForNotifications w)"
    by (auto simp: allocated_def)
  then have "count_list (registeredForNotifications w) r = 0" by simp
  with q1 more have m1: "count_list more r = 1" by simp
  have r2: "renderable w2 r"
    using shown render element kept(1) by (simp add: renderable_def)
  have once: "count_list (registeredForNotifications w2) r = 1" using kept(2) q1 by simp
  note n1 = notifyAll_steady [OF ms idle first]
  have log3: "count_list (renderLog w3) r = count_list (renderLog w2) r + 1"
    using n1(1) r2 once by (simp add: count_list_filter)
  have q3: "r \<notin> set (registeredForNotifications w3)"
    using n1(2) r2 by simp
  note n2 = notifyAll_steady [OF ms n1(3) second]
  have "count_list (filter (renderable w3) (registeredForNotifications w3)) r = 0"
    using q3 by (simp add: count_list_filter)
  then have log4: "count_list (renderLog w4) r = count_list (renderLog w3) r"
    using n2(1) by simp
  from log1 out more m1 log3 q3 log4 show ?thesis by blast
qed

text \<open>On the page with two hidden elements, for the instance \<open>0\<close>, which is not the
  last one the pass has made.\<close>

theorem hidden_instance_rendered_once_on_notify_witness:
  "scan None pair_page = Returns () pair_scanned \<and>
   initializeComponents widget_env pair_scanned = Returns () pair_queued \<and>
   registeredComponents pair_queued ''i140'' = Some 0 \<and>
   api_context (heap pair_queued 0) = Some 4 \<and>
   \<not> isVisible pair_scanned 4 \<and>
   isVisible pair_shown 4 \<and>
   notifyAll widget_env pair_shown = Returns () pair_rendered \<and>
   notifyAll widget_env pair_rendered = Returns () pair_rendered \<and>
   renderLog pair_queued = renderLog pair_scanned \<and>
   registeredForNotifications pair_queued = registeredForNotifications pair_scanned @ [0, 1] \<and>
   count_list (renderLog pair_rendered) 0 = count_list (renderLog pair_shown) 0 + 1 \<and>
   0 \<notin> set (registeredForNotifications pair_rendered)"
proof -
  have alloc: "allocated pair_scanned" by (simp add: allocated_def pair_defs)
  have new: "next_ref pair_scanned \<le> 0" by (simp add: pair_defs)
  have id: "registeredComponents pair_queued ''i140'' = Some 0" by (simp add: pair_defs)
  then have recorded: "0 \<in> ran (registeredComponents pair_queued)" by (rule ranI)
  have render: "api_render (heap pair_queued 0) = Some 2" by (simp add: pair_defs)
  have element: "api_context (heap pair_queued 0) = Some 4" by (simp add: pair_defs)
  have hidden: "\<not> isVisible pair_scanned 4" by (simp add: isVisible_def pair_defs)
  have kept: "heap pair_shown 0 = heap pair_queued 0"
    "count_list (registeredForNotifications pair_shown) 0 =
       count_list (registeredForNotifications pair_queued) 0"
    by (simp_all add: pair_defs)
  have shown: "isVisible pair_shown 4" by (simp add: isVisible_def pair_defs)
  have idle: "\<not> notifying pair_shown" by (simp add: pair_defs)
  from hidden_instance_rendered_once_on_notify
    [OF widget_env_factories widget_env_new widget_env_settled alloc pair_pass new recorded
        render element hidden kept shown idle pair_notified pair_rendered_notified]
  have "count_list (renderLog pair_queued) 0 = count_list (renderLog pair_scanned) 0"
    and "count_list (renderLog pair_rendered) 0 = count_list (renderLog pair_shown) 0 + 1"
    and "0 \<notin> set (registeredForNotifications pair_rendered)"
    by simp_all
  with pair_scan pair_pass id element hidden shown pair_notified pair_rendered_notified
  show ?thesis by (simp add: pair_defs)
qed

text \<open>
  Claim C2. For an element that is flagged as instantiated, any number of runs of
  \<^verbatim>\<open>checkForNewComponents\<close> (scan, then initializeComponents), over any root,
  call no factory on it: the calls made for the element are the same after the runs as
  before, whether the runs return or one of them throws, and the element is still
  flagged. Other elements may be instantiated by the same runs; the code of the
  components is taken to be discreet, that is, to leave the loader's tables and the
  flags of the elements alone. And when every marked element under the root and every
  element in the bucket of an available component is flagged, the runs return and leave
  the whole world exactly as it was, so the set of instances is unchanged.
\<close>

theorem rescan_creates_no_second_instance:
  assumes fk: "factories_keep env discreet" and mk: "methods_keep env discreet"
    and flagged: "componentized w element"
  shows "post (\<lambda>w'. constructions w' element = constructions w element \<and>
                      componentized w' element)
           (repeat n (checkForNewComponents env ctxt) w) \<and>
         ((\<forall>x \<in> set (querySelectorAll w (case ctxt of Some c \<Rightarrow> c | None \<Rightarrow> body w)
                         COMPONENT_PREFIX). componentized w x) \<and>
          (\<forall>component \<in> set (availableComponents w).
             \<forall>bucket. componentsHash w (name component) = Some bucket \<longrightarrow>
               (\<forall>x \<in> set bucket. componentized w x)) \<longrightarrow>
          repeat n (checkForNewComponents env ctxt) w = Returns () w)"
  using repeat_flagged [OF fk mk flagged] rescan_fixed by blast

theorem rescan_creates_no_second_instance_witness:
  "componentized instantiated_page 4 \<and>
   querySelectorAll instantiated_page (body instantiated_page) COMPONENT_PREFIX = [4] \<and>
   componentsHash instantiated_page ''a'' = Some [4] \<and>
   componentsHash instantiated_page ''b'' = Some [4] \<and>
   constructions instantiated_page 4 = [(10, 4)] \<and>
   repeat 3 (checkForNewComponents widget_env None) instantiated_page =
     Returns () instantiated_page"
proof -
  have sel: "querySelectorAll instantiated_page (body instantiated_page) COMPONENT_PREFIX = [4]"
    by (simp add: querySelectorAll_def indexOf_def COMPONENT_PREFIX_def getAttribute_def
          marker_defs)
  have flagged: "componentized instantiated_page 4"
    by (simp add: componentized_def getAttribute_def marker_defs)
  have marked: "\<forall>x \<in> set (querySelectorAll instantiated_page
                       (case None of Some c \<Rightarrow> c | None \<Rightarrow> body instantiated_page)
                       COMPONENT_PREFIX).
                  componentized instantiated_page x"
    using sel flagged by simp
  have buckets: "\<forall>component \<in> set (availableComponents instantiated_page).
                    \<forall>bucket. componentsHash instantiated_page (name component) = Some bucket \<longrightarrow>
                      (\<forall>x \<in> set bucket. componentized instantiated_page x)"
    using flagged by (simp add: marker_defs)
  from rescan_creates_no_second_instance
    [OF widget_env_factories steady_discreet [OF widget_env_methods] flagged, of 3 None]
    marked buckets
  have "repeat 3 (checkForNewComponents widget_env None) instantiated_page =
          Returns () instantiated_page"
    by blast
  with sel flagged show ?thesis by (simp add: constructions_def marker_defs)
qed

text \<open>
  Claim C3, at the input where the code departs from it. \<^verbatim>\<open>register\<close> looks the
  name up in the array \<^verbatim>\<open>_availableComponents\<close>, which holds its descriptors
  under the indices 0, 1, ... and nothing under a component's name. So registering
  \<^verbatim>\<open>knob\<close> a second time does not throw: it returns and the table holds two
  descriptors of that name.
\<close>

theorem duplicate_registration_is_accepted:
  "register es5_array_names ''knob'' (Some 1) fresh_world = Returns () knob_registered \<and>
   register es5_array_names ''knob'' (Some 2) knob_registered =
     Returns () (knob_registered\<lparr>availableComponents :=
        [\<lparr>name = ''knob'', func = Some 1\<rparr>, \<lparr>name = ''knob'', func = Some 2\<rparr>]\<rparr>)"
  by (simp add: register_def array_has_property_def es5_array_names_def fresh_world_def
        knob_registered_def decimal_digit digit_def)

text \<open>
  Claim C4. Whenever the loop that draws an id returns one, the id is not a key of the
  table of instances as the table is at that moment (the loop leaves the table alone),
  and the id starts with a letter. By \<open>generateId_returns\<close> the loop does return as
  soon as one of the numbers still to be drawn gives an id that is not in the table, and
  by \<open>create_component_records_new_id\<close> every instantiation adds its instance to
  the table under a key that was not there, so no entry is ever overwritten.
\<close>

theorem generated_id_is_new_and_starts_with_a_letter:
  "generateId w = Some (componentId, w') \<Longrightarrow>
     registeredComponents w componentId = None \<and>
     registeredComponents w' = registeredComponents w \<and>
     componentId \<noteq> [] \<and> is_letter (hd componentId)"
  using generateId_Some [of w "(componentId, w')"] by (auto simp: is_letter_def)

theorem generated_id_is_new_and_starts_with_a_letter_witness:
  "generateId crowded_world = Some (''i141'', crowded_world\<lparr>random_pos := 2\<rparr>) \<and>
   registeredComponents crowded_world ''i140'' = Some 3 \<and>
   registeredComponents crowded_world ''i141'' = None \<and>
   is_letter (hd ''i141'')"
proof -
  have "generateId (crowded_world\<lparr>random_pos := 1\<rparr>) =
          Some (''i141'', crowded_world\<lparr>random_pos := 2\<rparr>)"
    using generateId_first [of "crowded_world\<lparr>random_pos := 1\<rparr>"]
    by (simp add: crowded_world_def fresh_world_def decimal_digit digit_def)
  then have run: "generateId crowded_world = Some (''i141'', crowded_world\<lparr>random_pos := 2\<rparr>)"
    by (subst generateId.simps)
       (simp add: crowded_world_def fresh_world_def decimal_digit digit_def Let_def)
  from generated_id_is_new_and_starts_with_a_letter [OF run] run
  show ?thesis by (simp add: crowded_world_def)
qed

text \<open>
  Claim C5, at the input where the code departs from it. The factory is called with
  \<^verbatim>\<open>new\<close>, so when its body returns nothing (or a number, a string, ...) the
  value the loader gets is the fresh object \<^verbatim>\<open>this\<close>, whose \<^verbatim>\<open>typeof\<close>
  is \<^verbatim>\<open>"object"\<close>. The check passes, no error is thrown, and an object with no
  \<^verbatim>\<open>init\<close> and no \<^verbatim>\<open>render\<close> is recorded under a new id.
\<close>

theorem factory_returning_nothing_is_accepted:
  "create_component (quiet_env (\<lambda>f. Undefined)) ''widget'' 5 4 widget_page =
     Returns 0
       (widget_page\<lparr>elements := (elements widget_page)
            (4 := plain_element\<lparr>attrs := [''class'' \<mapsto> ''js-component-widget'',
                                            ''data-componentized'' \<mapsto> ''true'']\<rparr>),
          heap := (heap widget_page)
            (0 := \<lparr>api_id = Some ''i140'', api_context = Some 4,
                   api_init = None, api_render = None\<rparr>),
          next_ref := 1, random_pos := 1,
          registeredComponents := [''i140'' \<mapsto> 0],
          constructLog := [(5, 4)]\<rparr>)"
  by (simp add: create_component_def js_new_def quiet_env_def setAttribute_def
        generateId_first assign_id_context_def call_init_def no_api_message_def
        widget_page_def fresh_world_def plain_element_def empty_object_def
        decimal_digit digit_def Let_def)

theorem factory_returning_nothing_is_accepted_witness:
  "\<forall>w. create_component (quiet_env (\<lambda>f. Undefined)) ''widget'' 5 4 widget_page \<noteq>
         Throws (Thrown (no_api_message ''widget'')) w"
  using factory_returning_nothing_is_accepted by simp

text \<open>
  Claim C6, at the input where the code departs from it. A class token is taken for a
  marker when the prefix occurs anywhere in it, but the name is cut at the length of the
  prefix from the start of the token. For the token \<^verbatim>\<open>my-js-component-foo\<close> the
  element is stored under \<^verbatim>\<open>nt-foo\<close>, not under \<^verbatim>\<open>foo\<close>, the part after
  the prefix. (For a token that starts with the prefix the name is the part after it:
  \<open>scan_class_prefixed\<close>.)
\<close>

theorem marker_inside_token_gives_other_name:
  "scan None inner_marker_page =
     Returns () (inner_marker_page\<lparr>componentsHash := [''nt-foo'' \<mapsto> [4]]\<rparr>)"
  by (simp add: scan_def querySelectorAll_def scan_element_def scan_class_def indexOf_def
        slice_def COMPONENT_PREFIX_def inner_marker_page_def fresh_world_def plain_element_def
        es5_object_names_def componentized_def getAttribute_def Let_def)

text \<open>
  Claim C7. A call of \<^verbatim>\<open>notifyAll\<close> made while \<^verbatim>\<open>api.notifying\<close> is set
  returns at once and leaves the whole world as it is, whatever the code of the
  components is: no \<^verbatim>\<open>render\<close> is invoked and the queue keeps every entry. And
  a call made from inside a \<^verbatim>\<open>render\<close> method that a \<^verbatim>\<open>notifyAll\<close> in
  progress has invoked is such a call: let the methods not write
  \<^verbatim>\<open>api.notifying\<close> themselves, and let every method call
  \<^verbatim>\<open>notifyAll\<close> at some point of its body, between what it does before
  (\<open>env1\<close>) and what it does after (\<open>env2\<close>); then \<^verbatim>\<open>notifyAll\<close>
  does exactly what it does when the methods make no such call: the outcome, the log of
  the render calls and the queue are the same.
\<close>

theorem notifyAll_in_progress_is_noop:
  assumes mk1: "methods_keep env1 flag_kept" and mk2: "methods_keep env2 flag_kept"
  shows "(notifying w \<longrightarrow> notifyAll inner w = Returns () w) \<and>
         notifyAll (reentering env1 inner env2) w = notifyAll (in_sequence env1 env2) w"
  using notifyAll_agree [OF in_sequence_flag [OF mk1 mk2] reentering_invoke [OF mk1]]
  by (simp add: notifyAll_flagged)

text \<open>On the page with two shown elements and the queue \<open>[0, 1]\<close>, with methods
  whose nested calls would throw if they rendered anything: each instance is rendered
  once, by the outer call.\<close>

theorem notifyAll_in_progress_is_noop_witness:
  "notifying blocked_page \<and>
   notifyAll failing_env blocked_page = Returns () blocked_page \<and>
   registeredForNotifications pair_shown = [0, 1] \<and>
   notifyAll (reentering widget_env failing_env widget_env) pair_shown =
     Returns () pair_rendered \<and>
   renderLog pair_rendered = renderLog pair_shown @ [0, 1] \<and>
   registeredForNotifications pair_rendered = []"
proof -
  have flag: "notifying blocked_page" by (simp add: page_defs)
  from notifyAll_in_progress_is_noop
    [OF widget_env_flag widget_env_flag, of blocked_page failing_env] flag
  have inner: "notifyAll failing_env blocked_page = Returns () blocked_page" by simp
  from notifyAll_in_progress_is_noop
    [OF widget_env_flag widget_env_flag, of pair_shown failing_env]
  have outer: "notifyAll (reentering widget_env failing_env widget_env) pair_shown =
                 Returns () pair_rendered"
    by (simp add: pair_notified_in_sequence)
  from flag inner outer show ?thesis by (simp add: pair_defs)
qed

text \<open>
  Claim C8, at the input where the code departs from it. When the element has no
  \<^verbatim>\<open>data-canvas-settings\<close> attribute, \<^verbatim>\<open>init\<close> hands a new empty object
  to \<^verbatim>\<open>JSON.parse\<close>, which reads it as the text \<^verbatim>\<open>[object Object]\<close>:
  \<^verbatim>\<open>init\<close> does what it does for an attribute with that text, and that text is
  not JSON, so \<^verbatim>\<open>JSON.parse\<close> throws and \<^verbatim>\<open>init\<close> with it; the defaults
  are never reached. (When the attribute holds an object, its values win over the
  defaults, a key \<^verbatim>\<open>__proto__\<close> apart: \<open>extend_defaults_then_markup\<close>.)
\<close>

theorem knob_init_without_settings_parses_object_text:
  "knob_init JSON_parse (Some c) None k =
     knob_init JSON_parse (Some c) (Some ''[object Object]'') k \<and>
   knob_init JSON_parse (Some c) None k =
     (case JSON_parse ''[object Object]'' of
        Inl e \<Rightarrow> Inl (e, k\<lparr>ctx := Some c\<rparr>)
      | Inr parsed \<Rightarrow>
          Inr \<lparr>ctx = Some (setCanvasProps (extend (settings k) [JObj defaults, parsed]) c),
               settings = extend (settings k) [JObj defaults, parsed]\<rparr>)"
  by (simp add: knob_init_def Let_def split: sum.splits)

text \<open>
  Claim C9. Let an element be in the buckets of several available components (as
  \<^verbatim>\<open>scan\<close> leaves an element whose class carries several markers) and not
  flagged, and let \<open>component\<close> be the first available component, in the order of
  registration, that has a factory and holds the element in its bucket. Then a pass of
  \<^verbatim>\<open>initializeComponents\<close> that returns has called a factory on the element
  exactly once, the factory of \<open>component\<close>, and has flagged the element; and from
  any world in which the element is flagged, no pass calls a factory on it again,
  whether the pass returns or throws. The code of the components is taken to be
  discreet: it leaves the loader's tables and the flags of the elements alone.
\<close>

theorem marked_twice_instantiated_once:
  assumes fk: "factories_keep env discreet" and mk: "methods_keep env discreet"
    and unflagged: "\<not> componentized w element"
    and order: "availableComponents w = earlier @ component # later"
    and f: "func component = Some f"
    and bucket: "componentsHash w (name component) = Some bucket" "element \<in> set bucket"
    and first: "\<forall>c \<in> set earlier. func c = None \<or>
                 (\<forall>es. componentsHash w (name c) = Some es \<longrightarrow> element \<notin> set es)"
    and run: "initializeComponents env w = Returns () w'"
  shows "constructions w' element = constructions w element @ [(f, element)] \<and>
         componentized w' element \<and>
         (\<forall>v. componentized v element \<longrightarrow>
            post (\<lambda>v'. constructions v' element = constructions v element \<and>
                        componentized v' element)
              (initializeComponents env v))"
proof -
  from run order obtain v1 v2 where
    r1: "forEach (initialize_component env) earlier w = Returns () v1"
    and r2: "initialize_component env component v1 = Returns () v2"
    and r3: "forEach (initialize_component env) later v2 = Returns () w'"
    by (auto simp: initializeComponents_def forEach_append bind_eq_Returns)
  have "post (pending w element) (forEach (initialize_component env) earlier w)"
    using pending_refl [OF unflagged] first
    by (intro post_forEach) (auto intro!: initialize_component_pending [OF fk mk])
  with r1 have "pending w element v1" by simp
  from initialize_component_pending_made [OF fk mk this f bucket r2]
  have m2: "made w element f v2" .
  have "post (made w element f) (forEach (initialize_component env) later v2)"
    using m2 by (rule post_forEach) (rule initialize_component_made [OF fk mk])
  with r3 have once: "made w element f w'" by simp
  have later_passes: "post (\<lambda>v'. constructions v' element = constructions v element \<and>
                        componentized v' element) (initializeComponents env v)"
    if "componentized v element" for v
    using fk mk that by (rule initializeComponents_flagged)
  from once later_passes show ?thesis by (simp add: made_def)
qed

theorem marked_twice_instantiated_once_witness:
  "scan None two_marker_page = Returns () scanned_page \<and>
   componentsHash scanned_page ''a'' = Some [4] \<and>
   componentsHash scanned_page ''b'' = Some [4] \<and>
   \<not> componentized scanned_page 4 \<and>
   initializeComponents widget_env scanned_page = Returns () instantiated_page \<and>
   constructions instantiated_page 4 = [(10, 4)] \<and>
   componentized instantiated_page 4 \<and>
   initializeComponents widget_env instantiated_page = Returns () instantiated_page"
proof -
  have unflagged: "\<not> componentized scanned_page 4"
    by (simp add: componentized_def getAttribute_def marker_defs)
  have order: "availableComponents scanned_page =
                 [] @ \<lparr>name = ''a'', func = Some 10\<rparr> # [\<lparr>name = ''b'', func = Some 20\<rparr>]"
    by (simp add: marker_defs)
  have buckets: "componentsHash scanned_page ''a'' = Some [4]"
    "componentsHash scanned_page ''b'' = Some [4]"
    by (simp_all add: marker_defs)
  have bucket: "componentsHash scanned_page (name \<lparr>name = ''a'', func = Some 10\<rparr>) = Some [4]"
    using buckets by simp
  from marked_twice_instantiated_once
    [OF widget_env_factories steady_discreet [OF widget_env_methods] unflagged order _ bucket _ _
        scanned_instantiated, of 10]
  have result: "constructions instantiated_page 4 = constructions scanned_page 4 @ [(10, 4)] \<and>
                componentized instantiated_page 4"
    by simp
  have again: "initializeComponents widget_env instantiated_page = Returns () instantiated_page"
    by (simp add: initializeComponents_def initialize_component_def instantiate_def
          componentized_def getAttribute_def marker_defs Let_def)
  from result have "constructions instantiated_page 4 = [(10, 4)]"
    by (simp add: constructions_def marker_defs)
  with two_marker_scanned buckets unflagged scanned_instantiated result again
  show ?thesis by simp
qed

text \<open>
  Claim C10. If \<^verbatim>\<open>notifyAll\<close>, called while no notification is in progress,
  ends by an error (as it does when a \<^verbatim>\<open>render\<close> throws), then
  \<^verbatim>\<open>api.notifying\<close> is still set and the queue is as it was before the call:
  nothing was removed, not even the instances rendered before the error. From then on
  every call of \<^verbatim>\<open>notifyAll\<close>, with any components and any number of times,
  returns without changing anything, so what is left in the queue is neither rendered nor
  removed. The methods are taken not to write \<^verbatim>\<open>api.notifying\<close> or the queue
  themselves. The other operations of the loader never write the flag
  (\<open>register_keeps_flag\<close>, \<open>scan_keeps_flag\<close>,
  \<open>initializeComponents_keeps_flag\<close>), and \<^verbatim>\<open>notifyAll\<close> clears it only
  on the path on which it returns.
\<close>

theorem render_error_blocks_notifyAll:
  assumes mk: "methods_keep env flag_and_queue_kept"
    and idle: "\<not> notifying w"
    and fails: "notifyAll env w = Throws e w'"
  shows "notifying w' \<and>
         registeredForNotifications w' = registeredForNotifications w \<and>
         (\<forall>env' n. repeat n (notifyAll env') w' = Returns () w')"
proof -
  from fails idle have "notify_each env (registeredForNotifications w) 0 [] (w\<lparr>notifying := True\<rparr>)
      = Throws e w'"
    by (auto simp: notifyAll_def bind_eq_Throws)
  from notify_each_Throws [OF mk this] have flag: "notifying w'"
    and queue: "registeredForNotifications w' = registeredForNotifications w"
    by (simp_all add: flag_and_queue_kept_def)
  have "notifyAll env' w' = Returns () w'" for env'
    using flag by (simp add: notifyAll_def)
  then have "repeat n (notifyAll env') w' = Returns () w'" for env' n
    by (intro repeat_fixed)
  with flag queue show ?thesis by simp
qed

theorem render_error_blocks_notifyAll_witness:
  "\<not> notifying shown_page \<and>
   notifyAll failing_env shown_page = Throws (Thrown ''render failed'') blocked_page \<and>
   notifying blocked_page \<and>
   registeredForNotifications blocked_page = [0] \<and>
   repeat 3 (notifyAll widget_env) blocked_page = Returns () blocked_page"
proof -
  have idle: "\<not> notifying shown_page" by (simp add: page_defs)
  from render_error_blocks_notifyAll [OF failing_env_methods idle shown_fails]
  have "notifying blocked_page"
    and "registeredForNotifications blocked_page = registeredForNotifications shown_page"
    and "repeat 3 (notifyAll widget_env) blocked_page = Returns () blocked_page"
    by simp_all
  with idle shown_fails show ?thesis by (simp add: page_defs)
qed

end
